theory Spec2Isabelle
  imports Complex_Main
begin

text \<open>
  A shallow embedding of the Ludo backend: the board rules engine
  (\<open>LudoGameService\<close>, in its version with gateway cells, safe squares and the
  \<open>validMoves\<close> field) and the room directory (\<open>RoomsService\<close>). Exceptions are
  values of the type \<open>error\<close>; the clock, the uuids and the random numbers that the
  source draws are arguments of the operations.
\<close>

section \<open>Data model (rooms/entities/player.entity.ts)\<close>

text \<open>
  The enum \<open>PlayerColor\<close> in its declaration order, which is the order of
  \<open>Object.values(PlayerColor)\<close>; \<open>colorName\<close> is the string value of a member.
\<close>

datatype PlayerColor = RED | BLUE | GREEN | YELLOW

fun colorName :: "PlayerColor \<Rightarrow> string" where
  "colorName RED = ''red''"
| "colorName BLUE = ''blue''"
| "colorName GREEN = ''green''"
| "colorName YELLOW = ''yellow''"

definition PlayerColor_values :: "PlayerColor list" where
  "PlayerColor_values = [RED, BLUE, GREEN, YELLOW]"

datatype RoomStatus = WAITING | PLAYING | FINISHED

text \<open>
  A \<open>Date\<close> is a natural number (a clock reading), a uuid is a string; both are
  handed to the operations that draw them from the environment.
\<close>

record Player =
  player_id :: string
  player_name :: string
  player_color :: PlayerColor
  isReady :: bool
  isAdmin :: bool
  joinedAt :: nat
  sessionId :: string

text \<open>
  A token; \<open>position\<close> is -1 at home, 0..51 on the main ring, 52..56 in the home
  stretch and 57 when finished.
\<close>

record Token =
  tok_id :: string
  tok_color :: PlayerColor
  position :: int
  isInHome :: bool
  isInHomeStretch :: bool
  isFinished :: bool

record MoveRecord =
  playerColor :: PlayerColor
  tokenId :: string
  from_pos :: int
  to_pos :: int
  timestamp :: nat
  capturedTokenId :: "string option"

text \<open>
  \<open>currentTurnPlayerIndex\<close> is a JavaScript number that \<open>passTurn\<close> computes with
  \<open>%\<close>: it is an integer or NaN (the remainder by zero).
\<close>

datatype jsnum = Num int | NaN

record GameState =
  currentTurnPlayerIndex :: jsnum
  diceValue :: "int option"
  canRollDice :: bool
  consecutiveSixes :: int
  tokens :: "Token list"
  winner :: "PlayerColor option"
  moveHistory :: "MoveRecord list"
  playerColorOrder :: "PlayerColor list"
  validMoves :: "string list"

record Room =
  room_id :: string
  code :: string
  adminId :: string
  players :: "Player list"
  maxPlayers :: int
  status :: RoomStatus
  createdAt :: nat
  lastActivity :: nat
  gameState :: "GameState option"

text \<open>The exceptions the services throw, with their messages.\<close>

datatype error =
    BadRequestException string
  | NotFoundException string
  | ConflictException string
  | TypeError string

section \<open>JavaScript helpers\<close>

text \<open>\<open>Array.prototype.findIndex\<close>; \<open>None\<close> stands for the result -1.\<close>

fun findIndex :: "('a \<Rightarrow> bool) \<Rightarrow> 'a list \<Rightarrow> nat option" where
  "findIndex P [] = None"
| "findIndex P (x # xs) =
     (if P x then Some 0 else map_option Suc (findIndex P xs))"

text \<open>\<open>xs[i]\<close> for a number \<open>i\<close>: \<open>undefined\<close> (here \<open>None\<close>) out of range and at NaN.\<close>

definition js_index :: "'a list \<Rightarrow> jsnum \<Rightarrow> 'a option" where
  "js_index xs i =
     (case i of
        NaN \<Rightarrow> None
      | Num k \<Rightarrow> if 0 \<le> k \<and> k < int (length xs) then Some (xs ! nat k) else None)"

text \<open>\<open>a % b\<close> on integers: the sign follows the dividend, and \<open>a % 0\<close> is NaN.\<close>

definition js_rem :: "int \<Rightarrow> int \<Rightarrow> jsnum" where
  "js_rem a b = (if b = 0 then NaN else Num (sgn a * (\<bar>a\<bar> mod \<bar>b\<bar>)))"

definition js_succ_rem :: "jsnum \<Rightarrow> int \<Rightarrow> jsnum" where
  "js_succ_rem i n = (case i of NaN \<Rightarrow> NaN | Num k \<Rightarrow> js_rem (k + 1) n)"

section \<open>The board rules engine (LudoGameService)\<close>

subsection \<open>Board constants\<close>

fun START_POS :: "PlayerColor \<Rightarrow> int" where
  "START_POS RED = 0"
| "START_POS GREEN = 13"
| "START_POS YELLOW = 27"
| "START_POS BLUE = 41"

fun GATEWAY :: "PlayerColor \<Rightarrow> int" where
  "GATEWAY RED = 51"
| "GATEWAY GREEN = 25"
| "GATEWAY YELLOW = 39"
| "GATEWAY BLUE = 46"

definition SAFE_SQUARES :: "int set" where
  "SAFE_SQUARES = {0, 8, 13, 21, 27, 35, 41, 49}"

subsection \<open>initializeGame\<close>

definition digits :: string where
  "digits = ''0123456789''"

definition newToken :: "Player \<Rightarrow> nat \<Rightarrow> Token" where
  "newToken player i =
     \<lparr> tok_id = colorName (player_color player) @ ''-'' @ [digits ! i],
       tok_color = player_color player,
       position = -1,
       isInHome = True,
       isInHomeStretch = False,
       isFinished = False \<rparr>"

definition initializeGame :: "Player list \<Rightarrow> GameState" where
  "initializeGame ps =
     \<lparr> currentTurnPlayerIndex = Num 0,
       diceValue = None,
       canRollDice = True,
       consecutiveSixes = 0,
       tokens = concat (map (\<lambda>player. map (newToken player) [0, 1, 2, 3]) ps),
       winner = None,
       moveHistory = [],
       playerColorOrder = map player_color ps,
       validMoves = [] \<rparr>"

subsection \<open>Core movement logic\<close>

definition stepsFromTo :: "int \<Rightarrow> int \<Rightarrow> int" where
  "stepsFromTo from to = (if to \<ge> from then to - from else 52 - from + to)"

definition calculateNewPosition :: "Token \<Rightarrow> int \<Rightarrow> int option" where
  "calculateNewPosition token dice =
     (if isInHome token then
        (if dice = 6 then Some (START_POS (tok_color token)) else None)
      else if isFinished token then None
      else if isInHomeStretch token then
        (let next = position token + dice
         in if next = 57 then Some 57
            else if next > 57 then None
            else Some next)
      else
        (let gateway = GATEWAY (tok_color token);
             stepsToGateway = stepsFromTo (position token) gateway
         in if dice \<le> stepsToGateway then
              (let rawNew = position token + dice
               in Some (if rawNew > 51 then rawNew - 52 else rawNew))
            else
              (let stepsIntoStretch = dice - stepsToGateway - 1;
                   stretchPos = 52 + stepsIntoStretch
               in if stretchPos > 56 then None else Some stretchPos)))"

text \<open>
  The colour argument is a \<open>PlayerColor option\<close>: \<open>rollDice\<close> passes what
  \<open>getCurrentPlayerColor\<close> returns, which is \<open>undefined\<close> when the turn index
  points outside the colour order, and no token's colour equals \<open>undefined\<close>.
\<close>

definition computeValidMoves :: "GameState \<Rightarrow> PlayerColor option \<Rightarrow> int \<Rightarrow> string list" where
  "computeValidMoves gs pc dice =
     map tok_id
       (filter (\<lambda>t. calculateNewPosition t dice \<noteq> None)
          (filter (\<lambda>t. Some (tok_color t) = pc \<and> \<not> isFinished t) (tokens gs)))"

definition getCurrentPlayerColor :: "GameState \<Rightarrow> PlayerColor option" where
  "getCurrentPlayerColor gs =
     (if length (playerColorOrder gs) > 0
      then js_index (playerColorOrder gs) (currentTurnPlayerIndex gs)
      else js_index [RED, GREEN, YELLOW, BLUE] (currentTurnPlayerIndex gs))"

text \<open>
  \<open>passTurn\<close> takes the player count from \<open>playerColorOrder\<close>, a field every
  \<open>GameState\<close> has (the \<open>?? getPlayerCount\<close> fallback is for a missing field).
\<close>

definition passTurn :: "GameState \<Rightarrow> int \<Rightarrow> int \<times> GameState" where
  "passTurn gs lastDiceValue =
     (let playerCount = int (length (playerColorOrder gs));
          nextIndex = js_succ_rem (currentTurnPlayerIndex gs) playerCount
      in (lastDiceValue,
          gs\<lparr> currentTurnPlayerIndex := nextIndex,
              diceValue := None,
              canRollDice := True,
              consecutiveSixes := 0,
              validMoves := [] \<rparr>))"

text \<open>
  \<open>checkWinner\<close> groups the tokens by colour, the colours in the order of their
  first token (the insertion order of the object's keys), and returns the first
  colour whose tokens are all finished.
\<close>

fun groupByColor :: "Token list \<Rightarrow> (PlayerColor \<times> Token list) list \<Rightarrow> (PlayerColor \<times> Token list) list" where
  "groupByColor [] byColor = byColor"
| "groupByColor (t # ts) byColor =
     groupByColor ts
       (case map_of byColor (tok_color t) of
          None \<Rightarrow> byColor @ [(tok_color t, [t])]
        | Some ct \<Rightarrow> map (\<lambda>(c, l). if c = tok_color t then (c, l @ [t]) else (c, l)) byColor)"

definition checkWinner :: "Token list \<Rightarrow> PlayerColor option" where
  "checkWinner ts =
     map_option fst (find (\<lambda>(c, ct). list_all isFinished ct) (groupByColor ts []))"

subsection \<open>rollDice\<close>

text \<open>
  \<open>Math.random()\<close> returns an IEEE double in the interval [0, 1), and the products
  \<open>Math.random() * 5\<close> and \<open>Math.random() * 6\<close> are products of doubles, rounded to
  the nearest double, ties to the even mantissa. A draw \<open>Draw m q\<close> stands for the
  number \<open>m / 2 ^ q\<close>; the doubles in [0, 1) are these numbers with a mantissa
  \<open>m\<close> of at most 53 bits, \<open>m < 2 ^ q\<close>, and \<open>q\<close> at most 1074.
\<close>

datatype draw = Draw nat nat

fun drawValue :: "draw \<Rightarrow> real" where
  "drawValue (Draw m q) = real m / 2 ^ q"

fun isUnitDouble :: "draw \<Rightarrow> bool" where
  "isUnitDouble (Draw m q) \<longleftrightarrow> m < 2 ^ 53 \<and> m < 2 ^ q \<and> q \<le> 1074"

text \<open>The number of bits of a natural number.\<close>

fun bitLength :: "nat \<Rightarrow> nat" where
  "bitLength n = (if n = 0 then 0 else Suc (bitLength (n div 2)))"

declare bitLength.simps [simp del]

text \<open>
  \<open>n / 2 ^ s\<close> rounded to the nearest natural number, a tie to the even one.
\<close>

definition roundHalfEven :: "nat \<Rightarrow> nat \<Rightarrow> nat" where
  "roundHalfEven n s =
     (if s = 0 then n
      else (let k = n div 2 ^ s; r = n mod 2 ^ s
            in if 2 * r < 2 ^ s \<or> (2 * r = 2 ^ s \<and> even k) then k else k + 1))"

text \<open>
  The double product of a draw and a small natural number \<open>c\<close>: the exact product
  \<open>m * c / 2 ^ q\<close> with its numerator rounded to 53 bits. (The product of a double in
  [0, 1) that needs rounding is at least \<open>2 ^ 53 / 2 ^ 1074\<close>, a normal double, so that
  53 bits are the precision of the result.)
\<close>

fun timesDouble :: "draw \<Rightarrow> nat \<Rightarrow> draw" where
  "timesDouble (Draw m q) c =
     (let n = m * c; s = bitLength n - 53
      in Draw (roundHalfEven n s * 2 ^ s) q)"

text \<open>\<open>Math.floor\<close> of a draw.\<close>

fun floorDraw :: "draw \<Rightarrow> int" where
  "floorDraw (Draw n q) = int (n div 2 ^ q)"

text \<open>The dice value that \<open>rollDice\<close> computes from the draw \<open>rnd\<close>.\<close>

definition drawDice :: "GameState \<Rightarrow> draw \<Rightarrow> int" where
  "drawDice gs rnd =
     (if consecutiveSixes gs \<ge> 2 then floorDraw (timesDouble rnd 5) + 1
      else floorDraw (timesDouble rnd 6) + 1)"

definition rollDice :: "GameState \<Rightarrow> draw \<Rightarrow> error + (int \<times> GameState)" where
  "rollDice gs rnd =
     (if \<not> canRollDice gs then Inl (BadRequestException ''Cannot roll dice at this time'')
      else
        (let dice = drawDice gs rnd;
             currentPlayerColor = getCurrentPlayerColor gs;
             stateWithDice = gs\<lparr> diceValue := Some dice, canRollDice := False, validMoves := [] \<rparr>;
             vm = computeValidMoves stateWithDice currentPlayerColor dice
         in if length vm = 0 then Inr (passTurn stateWithDice dice)
            else Inr (dice, stateWithDice\<lparr> validMoves := vm \<rparr>)))"

subsection \<open>moveToken\<close>

definition capturable :: "Token \<Rightarrow> int \<Rightarrow> Token \<Rightarrow> bool" where
  "capturable token newPosition t \<longleftrightarrow>
     position t = newPosition \<and> tok_color t \<noteq> tok_color token
       \<and> \<not> isInHomeStretch t \<and> \<not> isFinished t \<and> \<not> isInHome t"

text \<open>The captured token as it is written back: at home, off the lane.\<close>

definition sentHome :: "Token \<Rightarrow> Token" where
  "sentHome capturedToken =
     capturedToken\<lparr> position := -1, isInHome := True, isInHomeStretch := False \<rparr>"

text \<open>The capture check: the token list after it and the captured token's id.\<close>

definition checkCapture :: "Token list \<Rightarrow> Token \<Rightarrow> int \<Rightarrow> Token list \<times> string option" where
  "checkCapture updatedTokens token newPosition =
     (if newPosition \<ge> 0 \<and> newPosition \<le> 51 \<and> newPosition \<notin> SAFE_SQUARES then
        (case find (capturable token newPosition) updatedTokens of
           None \<Rightarrow> (updatedTokens, None)
         | Some capturedToken \<Rightarrow>
             (case findIndex (\<lambda>t. tok_id t = tok_id capturedToken) updatedTokens of
                None \<Rightarrow> (updatedTokens, Some (tok_id capturedToken))
              | Some ci \<Rightarrow>
                  (updatedTokens[ci := sentHome capturedToken], Some (tok_id capturedToken))))
      else (updatedTokens, None))"

definition movedToken :: "Token \<Rightarrow> int \<Rightarrow> Token" where
  "movedToken token newPosition =
     token\<lparr> position := newPosition,
            isInHome := False,
            isInHomeStretch := (newPosition \<ge> 52 \<and> newPosition \<le> 56),
            isFinished := (newPosition = 57) \<rparr>"

text \<open>\<open>!!capturedTokenId\<close>: an id was recorded and it is not the empty string.\<close>

definition truthy :: "string option \<Rightarrow> bool" where
  "truthy s = (case s of None \<Rightarrow> False | Some v \<Rightarrow> v \<noteq> [])"

text \<open>
  The second half of \<open>moveToken\<close>, after its checks: the capture, the move, the
  move record, the winner and the turn. \<open>now\<close> is the \<open>new Date()\<close> of the move
  record.
\<close>

definition applyMove :: "GameState \<Rightarrow> Token \<Rightarrow> int \<Rightarrow> int \<Rightarrow> nat \<Rightarrow> nat \<Rightarrow> GameState" where
  "applyMove gs token dice newPosition tokenIndex now =
     (let oldPosition = position (tokens gs ! tokenIndex);
          (captured, capturedId) = checkCapture (tokens gs) token newPosition;
          updatedTokens = captured[tokenIndex := movedToken token newPosition];
          history = moveHistory gs @
            [\<lparr> playerColor = tok_color token, tokenId = tok_id token,
               from_pos = oldPosition, to_pos = newPosition,
               timestamp = now, capturedTokenId = capturedId \<rparr>];
          win = checkWinner updatedTokens;
          rolledSix = (dice = 6);
          didCapture = truthy capturedId;
          shouldContinueTurn = ((rolledSix \<or> didCapture) \<and> win = None);
          passed = snd (passTurn (gs\<lparr> tokens := updatedTokens, moveHistory := history,
                                       winner := win, validMoves := [] \<rparr>) dice)
      in if shouldContinueTurn then
           (let newConsecutiveSixes = (if rolledSix then consecutiveSixes gs + 1 else 0)
            in if newConsecutiveSixes \<ge> 3 then passed
               else gs\<lparr> tokens := updatedTokens,
                        diceValue := None,
                        canRollDice := True,
                        consecutiveSixes := newConsecutiveSixes,
                        moveHistory := history,
                        winner := win,
                        validMoves := [] \<rparr>)
         else passed)"

text \<open>
  \<open>moveToken\<close>; the source's third parameter is unused and left out. Reading
  \<open>updatedTokens[tokenIndex].position\<close> at index -1 would be a TypeError.
\<close>

definition moveToken :: "GameState \<Rightarrow> string \<Rightarrow> nat \<Rightarrow> error + GameState" where
  "moveToken gs tid now =
     (case diceValue gs of
        None \<Rightarrow> Inl (BadRequestException ''Dice must be rolled first'')
      | Some dice \<Rightarrow>
     (case find (\<lambda>t. tok_id t = tid) (tokens gs) of
        None \<Rightarrow> Inl (BadRequestException ''Token not found'')
      | Some token \<Rightarrow>
     if Some (tok_color token) \<noteq> getCurrentPlayerColor gs
       then Inl (BadRequestException ''Can only move your own tokens'')
     else if tid \<notin> set (validMoves gs)
       then Inl (BadRequestException ''This token is not a valid move'')
     else
     (case calculateNewPosition token dice of
        None \<Rightarrow> Inl (BadRequestException ''Invalid move'')
      | Some newPosition \<Rightarrow>
     (case findIndex (\<lambda>t. tok_id t = tid) (tokens gs) of
        None \<Rightarrow> Inl (TypeError ''Cannot read properties of undefined'')
      | Some tokenIndex \<Rightarrow> Inr (applyMove gs token dice newPosition tokenIndex now)))))"

text \<open>\<open>getValidMoves\<close>: \<open>!gameState.diceValue\<close> holds for null and for 0.\<close>

definition getValidMoves :: "GameState \<Rightarrow> PlayerColor \<Rightarrow> string list" where
  "getValidMoves gs pc =
     (case diceValue gs of
        None \<Rightarrow> []
      | Some d \<Rightarrow> if d = 0 then [] else computeValidMoves gs (Some pc) d)"

section \<open>The room directory (RoomsService)\<close>

text \<open>
  The two maps of the service: \<open>rooms\<close> from room code to room, \<open>playerToRoom\<close>
  from session identifier to room code. A room object is reached through \<open>rooms\<close>
  only, so the in-place updates of the source are updates of the map entry. Every
  operation returns its result, an error or a value, together with the service state
  after it; all checks of the source come before its first assignment.
\<close>

record RoomsService =
  rooms :: "string \<rightharpoonup> Room"
  playerToRoom :: "string \<rightharpoonup> string"

definition emptyService :: RoomsService where
  "emptyService = \<lparr> rooms = Map.empty, playerToRoom = Map.empty \<rparr>"

text \<open>
  \<open>generateRoomCode\<close> draws a random code and draws again while the code is in use.
  The list holds the codes drawn, one per call; \<open>None\<close> says that all of them are in
  use, where the source goes on drawing.
\<close>

fun generateRoomCode :: "(string \<rightharpoonup> Room) \<Rightarrow> string list \<Rightarrow> string option" where
  "generateRoomCode rs [] = None"
| "generateRoomCode rs (c # draws) =
     (if rs c \<noteq> None then generateRoomCode rs draws else Some c)"

text \<open>
  \<open>createRoom\<close>; \<open>playerId\<close> and \<open>roomId\<close> are the two \<open>uuidv4()\<close> values,
  \<open>now\<close> the clock. The result is \<open>None\<close> when no free code is drawn.
\<close>

definition createRoom ::
  "RoomsService \<Rightarrow> string \<Rightarrow> PlayerColor \<Rightarrow> int \<Rightarrow> string
     \<Rightarrow> string list \<Rightarrow> string \<Rightarrow> string \<Rightarrow> nat
     \<Rightarrow> ((error + Room) \<times> RoomsService) option" where
  "createRoom svc playerName playerColor' maxPlayers' sid draws playerId roomId now =
     (if playerToRoom svc sid \<noteq> None
        then Some (Inl (ConflictException ''You are already in a room''), svc)
      else
        (case generateRoomCode (rooms svc) draws of
           None \<Rightarrow> None
         | Some roomCode \<Rightarrow>
             (let admin = \<lparr> player_id = playerId, player_name = playerName,
                             player_color = playerColor', isReady = False, isAdmin = True,
                             joinedAt = now, sessionId = sid \<rparr>;
                  room = \<lparr> room_id = roomId, code = roomCode, adminId = playerId,
                            players = [admin], maxPlayers = maxPlayers', status = WAITING,
                            createdAt = now, lastActivity = now, gameState = None \<rparr>
              in Some (Inr room,
                       svc\<lparr> rooms := (rooms svc)(roomCode \<mapsto> room),
                            playerToRoom := (playerToRoom svc)(sid \<mapsto> roomCode) \<rparr>))))"

definition joinRoom ::
  "RoomsService \<Rightarrow> string \<Rightarrow> string \<Rightarrow> string \<Rightarrow> string \<Rightarrow> nat
     \<Rightarrow> (error + Room \<times> Player) \<times> RoomsService" where
  "joinRoom svc roomCode playerName sid playerId now =
     (if playerToRoom svc sid \<noteq> None
        then (Inl (ConflictException ''You are already in a room''), svc)
      else
        (case rooms svc roomCode of
           None \<Rightarrow> (Inl (NotFoundException ''Room not found''), svc)
         | Some room \<Rightarrow>
             if status room \<noteq> WAITING
               then (Inl (BadRequestException ''Room is not accepting new players''), svc)
             else if int (length (players room)) \<ge> maxPlayers room
               then (Inl (BadRequestException ''Room is full''), svc)
             else
               (let takenColors = map player_color (players room);
                    availableColors = filter (\<lambda>c. c \<notin> set takenColors) PlayerColor_values
                in if length availableColors = 0
                     then (Inl (BadRequestException ''No available colors''), svc)
                   else
                     (let newPlayer = \<lparr> player_id = playerId, player_name = playerName,
                                         player_color = hd availableColors, isReady = False,
                                         isAdmin = False, joinedAt = now, sessionId = sid \<rparr>;
                          room' = room\<lparr> players := players room @ [newPlayer],
                                        lastActivity := now \<rparr>
                      in (Inr (room', newPlayer),
                          svc\<lparr> rooms := (rooms svc)(roomCode \<mapsto> room'),
                               playerToRoom := (playerToRoom svc)(sid \<mapsto> roomCode) \<rparr>)))))"

text \<open>
  \<open>leaveRoom\<close>; the result is the room, or null when it was deleted, and whether the
  leaver was the admin.
\<close>

definition leaveRoom ::
  "RoomsService \<Rightarrow> string \<Rightarrow> nat \<Rightarrow> (error + Room option \<times> bool) \<times> RoomsService" where
  "leaveRoom svc sid now =
     (case playerToRoom svc sid of
        None \<Rightarrow> (Inl (NotFoundException ''You are not in any room''), svc)
      | Some roomCode \<Rightarrow>
     (case rooms svc roomCode of
        None \<Rightarrow> (Inl (NotFoundException ''Room not found''), svc)
      | Some room \<Rightarrow>
     (case findIndex (\<lambda>p. sessionId p = sid) (players room) of
        None \<Rightarrow> (Inl (NotFoundException ''Player not found in room''), svc)
      | Some playerIndex \<Rightarrow>
          (let player = players room ! playerIndex;
               wasAdmin = isAdmin player;
               remaining = take playerIndex (players room)
                             @ drop (Suc playerIndex) (players room);
               sessions = (playerToRoom svc)(sid := None)
           in if length remaining = 0
                then (Inr (None, wasAdmin),
                      svc\<lparr> rooms := (rooms svc)(roomCode := None), playerToRoom := sessions \<rparr>)
              else
                (let room' =
                       (if wasAdmin \<and> length remaining > 0
                        then room\<lparr> players := remaining[0 := (remaining ! 0)\<lparr> isAdmin := True \<rparr>],
                                   adminId := player_id (remaining ! 0),
                                   lastActivity := now \<rparr>
                        else room\<lparr> players := remaining, lastActivity := now \<rparr>)
                 in (Inr (Some room', wasAdmin),
                     svc\<lparr> rooms := (rooms svc)(roomCode \<mapsto> room'),
                          playerToRoom := sessions \<rparr>))))))"

text \<open>
  \<open>updatePlayerColor\<close>; the player found by \<open>find\<close> is the first with the session
  identifier, and the assignment to its colour changes that entry of the list.
\<close>

definition updatePlayerColor ::
  "RoomsService \<Rightarrow> string \<Rightarrow> PlayerColor \<Rightarrow> nat \<Rightarrow> (error + Room \<times> Player) \<times> RoomsService" where
  "updatePlayerColor svc sid newColor now =
     (case playerToRoom svc sid of
        None \<Rightarrow> (Inl (NotFoundException ''You are not in any room''), svc)
      | Some roomCode \<Rightarrow>
     (case rooms svc roomCode of
        None \<Rightarrow> (Inl (NotFoundException ''Room not found''), svc)
      | Some room \<Rightarrow>
     (case findIndex (\<lambda>p. sessionId p = sid) (players room) of
        None \<Rightarrow> (Inl (NotFoundException ''Player not found in room''), svc)
      | Some i \<Rightarrow>
          (let player = players room ! i;
               takenColors = map player_color
                               (filter (\<lambda>p. player_id p \<noteq> player_id player) (players room))
           in if newColor \<in> set takenColors
                then (Inl (ConflictException ''Color already taken''), svc)
              else
                (let player' = player\<lparr> player_color := newColor \<rparr>;
                     room' = room\<lparr> players := (players room)[i := player'],
                                   lastActivity := now \<rparr>
                 in (Inr (room', player'),
                     svc\<lparr> rooms := (rooms svc)(roomCode \<mapsto> room') \<rparr>))))))"

definition startGame :: "RoomsService \<Rightarrow> string \<Rightarrow> nat \<Rightarrow> (error + Room) \<times> RoomsService" where
  "startGame svc sid now =
     (case playerToRoom svc sid of
        None \<Rightarrow> (Inl (NotFoundException ''You are not in any room''), svc)
      | Some roomCode \<Rightarrow>
     (case rooms svc roomCode of
        None \<Rightarrow> (Inl (NotFoundException ''Room not found''), svc)
      | Some room \<Rightarrow>
     (case find (\<lambda>p. sessionId p = sid) (players room) of
        None \<Rightarrow> (Inl (NotFoundException ''Player not found in room''), svc)
      | Some player \<Rightarrow>
          if \<not> isAdmin player
            then (Inl (BadRequestException ''Only admin can start the game''), svc)
          else if length (players room) < 2
            then (Inl (BadRequestException ''At least 2 players required to start''), svc)
          else if \<not> list_all (\<lambda>p. isReady p \<or> isAdmin p) (players room)
            then (Inl (BadRequestException ''All players must be ready''), svc)
          else
            (let room' = room\<lparr> status := PLAYING, lastActivity := now,
                               gameState := Some (initializeGame (players room)) \<rparr>
             in (Inr room', svc\<lparr> rooms := (rooms svc)(roomCode \<mapsto> room') \<rparr>)))))"

subsection \<open>Sequences of directory operations\<close>

text \<open>
  A call of one of the four membership operations, with what it draws from the
  environment. \<open>run\<close> performs a sequence of calls from a service state; it is
  \<open>None\<close> when a \<open>createRoom\<close> does not return, or when the uuid drawn by a
  \<open>joinRoom\<close> is already the id of a player of the room joined, which a uuid is taken
  never to be.
\<close>

datatype command =
    CreateRoom string PlayerColor int string "string list" string string nat
  | JoinRoom string string string string nat
  | UpdateColor string PlayerColor nat
  | LeaveRoom string nat

fun perform :: "RoomsService \<Rightarrow> command \<Rightarrow> RoomsService option" where
  "perform svc (CreateRoom playerName c maxP sid draws playerId roomId now) =
     map_option snd (createRoom svc playerName c maxP sid draws playerId roomId now)"
| "perform svc (JoinRoom roomCode playerName sid playerId now) =
     Some (snd (joinRoom svc roomCode playerName sid playerId now))"
| "perform svc (UpdateColor sid newColor now) =
     Some (snd (updatePlayerColor svc sid newColor now))"
| "perform svc (LeaveRoom sid now) = Some (snd (leaveRoom svc sid now))"

fun uuidFresh :: "RoomsService \<Rightarrow> command \<Rightarrow> bool" where
  "uuidFresh svc (JoinRoom roomCode playerName sid playerId now) =
     (case rooms svc roomCode of
        None \<Rightarrow> True
      | Some room \<Rightarrow> playerId \<notin> player_id ` set (players room))"
| "uuidFresh svc _ = True"

fun run :: "RoomsService \<Rightarrow> command list \<Rightarrow> RoomsService option" where
  "run svc [] = Some svc"
| "run svc (c # cs) =
     (if uuidFresh svc c
      then (case perform svc c of None \<Rightarrow> None | Some svc' \<Rightarrow> run svc' cs)
      else None)"

subsection \<open>Sequences of game moves\<close>

text \<open>
  The game state of a room is written in three places of RoomsService: \<open>startGame\<close>
  stores the state of \<open>initializeGame\<close>, and \<open>rollDice\<close> and \<open>moveToken\<close> store the
  state that the engine returns. A call in which the engine throws stores nothing, so
  the state of the room stays as it was.
\<close>

datatype play = RollDice draw | MoveToken string nat

fun playStep :: "GameState \<Rightarrow> play \<Rightarrow> GameState" where
  "playStep gs (RollDice rnd) =
     (case rollDice gs rnd of Inl e \<Rightarrow> gs | Inr (d, gs') \<Rightarrow> gs')"
| "playStep gs (MoveToken tid now) =
     (case moveToken gs tid now of Inl e \<Rightarrow> gs | Inr gs' \<Rightarrow> gs')"

definition playGame :: "Player list \<Rightarrow> play list \<Rightarrow> GameState" where
  "playGame ps acts = foldl playStep (initializeGame ps) acts"

section \<open>Notions used to state the properties\<close>

text \<open>
  A colour is complete in a token list when it has tokens there and all of them are
  finished: the condition under which \<open>checkWinner\<close> can return it.
\<close>

definition allFinished :: "PlayerColor \<Rightarrow> Token list \<Rightarrow> bool" where
  "allFinished c ts \<longleftrightarrow>
     c \<in> tok_color ` set ts \<and> (\<forall>t \<in> set ts. tok_color t = c \<longrightarrow> isFinished t)"

text \<open>
  A token is well formed when its three flags say what its position says, the position
  being -1, a ring cell, a lane cell or 57.
\<close>

definition wfToken :: "Token \<Rightarrow> bool" where
  "wfToken t \<longleftrightarrow>
     -1 \<le> position t \<and> position t \<le> 57
     \<and> (isInHome t \<longleftrightarrow> position t = -1)
     \<and> (isInHomeStretch t \<longleftrightarrow> 52 \<le> position t \<and> position t \<le> 56)
     \<and> (isFinished t \<longleftrightarrow> position t = 57)"

text \<open>
  The invariant of the directory: in every room the players have distinct ids, distinct
  colours and distinct session identifiers, and each of their sessions is bound to the
  room's code.
\<close>

definition directoryInv :: "RoomsService \<Rightarrow> bool" where
  "directoryInv svc \<longleftrightarrow>
     (\<forall>rc room. rooms svc rc = Some room \<longrightarrow>
        distinct (map player_id (players room))
        \<and> distinct (map player_color (players room))
        \<and> distinct (map sessionId (players room))
        \<and> (\<forall>s \<in> set (map sessionId (players room)). playerToRoom svc s = Some rc))"

section \<open>Example states\<close>

text \<open>A token whose flags agree with its position, and a two-player game.\<close>

definition tokenAt :: "string \<Rightarrow> PlayerColor \<Rightarrow> int \<Rightarrow> Token" where
  "tokenAt i c p =
     \<lparr> tok_id = i, tok_color = c, position = p, isInHome = (p = -1),
       isInHomeStretch = (52 \<le> p \<and> p \<le> 56), isFinished = (p = 57) \<rparr>"

definition ann :: Player where
  "ann = \<lparr> player_id = ''p1'', player_name = ''Ann'', player_color = RED, isReady = False,
           isAdmin = True, joinedAt = 0, sessionId = ''s1'' \<rparr>"

definition bob :: Player where
  "bob = \<lparr> player_id = ''p2'', player_name = ''Bob'', player_color = GREEN, isReady = True,
           isAdmin = False, joinedAt = 1, sessionId = ''s2'' \<rparr>"

definition freshGame :: GameState where
  "freshGame = initializeGame [ann, bob]"

text \<open>
  A game in its last phase: red's turn, a 2 on the dice; red has a token on lane cell
  55 and three finished, green has a token on ring cell 10 and three at home.
\<close>

definition laneGame :: GameState where
  "laneGame =
     \<lparr> currentTurnPlayerIndex = Num 0,
       diceValue = Some 2,
       canRollDice = False,
       consecutiveSixes = 0,
       tokens = [tokenAt ''red-0'' RED 55, tokenAt ''red-1'' RED 57,
                 tokenAt ''red-2'' RED 57, tokenAt ''red-3'' RED 57,
                 tokenAt ''green-0'' GREEN 10, tokenAt ''green-1'' GREEN (-1),
                 tokenAt ''green-2'' GREEN (-1), tokenAt ''green-3'' GREEN (-1)],
       winner = None,
       moveHistory = [],
       playerColorOrder = [RED, GREEN],
       validMoves = [''red-0''] \<rparr>"

text \<open>
  Red to move with a 2 on the dice: the red token on cell 18 lands on cell 20, where two
  green tokens stand; a third green token stands on the safe cell 21.
\<close>

definition captureGame :: GameState where
  "captureGame =
     \<lparr> currentTurnPlayerIndex = Num 0,
       diceValue = Some 2,
       canRollDice = False,
       consecutiveSixes = 0,
       tokens = [tokenAt ''red-0'' RED 18, tokenAt ''red-1'' RED (-1),
                 tokenAt ''red-2'' RED (-1), tokenAt ''red-3'' RED (-1),
                 tokenAt ''green-0'' GREEN 20, tokenAt ''green-1'' GREEN 20,
                 tokenAt ''green-2'' GREEN 21, tokenAt ''green-3'' GREEN (-1)],
       winner = None,
       moveHistory = [],
       playerColorOrder = [RED, GREEN],
       validMoves = [''red-0''] \<rparr>"

text \<open>
  A game that red has won and that goes on: green to move with a 6 on the dice and a
  token at home.
\<close>

definition wonGame :: GameState where
  "wonGame =
     \<lparr> currentTurnPlayerIndex = Num 1,
       diceValue = Some 6,
       canRollDice = False,
       consecutiveSixes = 0,
       tokens = [tokenAt ''red-0'' RED 57, tokenAt ''red-1'' RED 57,
                 tokenAt ''red-2'' RED 57, tokenAt ''red-3'' RED 57,
                 tokenAt ''green-0'' GREEN (-1), tokenAt ''green-1'' GREEN 30,
                 tokenAt ''green-2'' GREEN (-1), tokenAt ''green-3'' GREEN (-1)],
       winner = Some RED,
       moveHistory = [],
       playerColorOrder = [RED, GREEN],
       validMoves = [''green-0'', ''green-1'', ''green-2'', ''green-3''] \<rparr>"

text \<open>
  The same game later: red is complete, and green's last unfinished token stands on lane
  cell 55 with a 2 on the dice.
\<close>

definition secondFinish :: GameState where
  "secondFinish =
     \<lparr> currentTurnPlayerIndex = Num 1,
       diceValue = Some 2,
       canRollDice = False,
       consecutiveSixes = 0,
       tokens = [tokenAt ''red-0'' RED 57, tokenAt ''red-1'' RED 57,
                 tokenAt ''red-2'' RED 57, tokenAt ''red-3'' RED 57,
                 tokenAt ''green-0'' GREEN 57, tokenAt ''green-1'' GREEN 57,
                 tokenAt ''green-2'' GREEN 57, tokenAt ''green-3'' GREEN 55],
       winner = Some RED,
       moveHistory = [],
       playerColorOrder = [RED, GREEN],
       validMoves = [''green-3''] \<rparr>"

text \<open>
  A room in the lobby: Ann is the admin, Bob has joined and is ready.
\<close>

definition lobbyRoom :: Room where
  "lobbyRoom =
     \<lparr> room_id = ''r1'', code = ''ABCD-1234'', adminId = ''p1'', players = [ann, bob],
       maxPlayers = 4, status = WAITING, createdAt = 0, lastActivity = 1, gameState = None \<rparr>"

definition lobby :: RoomsService where
  "lobby =
     \<lparr> rooms = [''ABCD-1234'' \<mapsto> lobbyRoom],
       playerToRoom = [''s1'' \<mapsto> ''ABCD-1234'', ''s2'' \<mapsto> ''ABCD-1234''] \<rparr>"

text \<open>
  Ann creates a room as red, Bob joins it and changes his colour to green.
\<close>

definition lobbyCommands :: "command list" where
  "lobbyCommands =
     [CreateRoom ''Ann'' RED 4 ''s1'' [''ABCD-1234''] ''p1'' ''r1'' 0,
      JoinRoom ''ABCD-1234'' ''Bob'' ''s2'' ''p2'' 1,
      UpdateColor ''s2'' GREEN 2]"


section \<open>Rolling the dice\<close>

lemma bitLength_eval:
  "bitLength 0 = 0" "bitLength (Suc 0) = Suc 0"
  "bitLength (numeral k) = Suc (bitLength (numeral k div 2))"
  by (simp_all add: bitLength.simps[of 0] bitLength.simps[of "Suc 0"] bitLength.simps[of "numeral k"])

lemma bitLength_less: "n < 2 ^ bitLength n"
proof (induction n rule: bitLength.induct)
  case (1 n)
  show ?case
  proof (cases "n = 0")
    case True
    then show ?thesis by (simp add: bitLength.simps[of 0])
  next
    case False
    have b: "bitLength n = Suc (bitLength (n div 2))"
      using False bitLength.simps[of n] by simp
    have "n div 2 < 2 ^ bitLength (n div 2)" using 1 False by simp
    then have "n < 2 * 2 ^ bitLength (n div 2)" by linarith
    then show ?thesis using b by simp
  qed
qed

lemma bitLength_ge: "0 < n \<Longrightarrow> 2 ^ (bitLength n - 1) \<le> n"
proof (induction n rule: bitLength.induct)
  case (1 n)
  have b: "bitLength n = Suc (bitLength (n div 2))"
    using 1(2) bitLength.simps[of n] by simp
  show ?case
  proof (cases "n div 2 = 0")
    case True
    then show ?thesis using b 1(2) by (simp add: bitLength.simps[of 0])
  next
    case False
    then have ih: "2 ^ (bitLength (n div 2) - 1) \<le> n div 2" using 1 by simp
    obtain b' where b': "bitLength (n div 2) = Suc b'"
      using False bitLength.simps[of "n div 2"] by simp
    have "2 * 2 ^ b' \<le> 2 * (n div 2)" using ih b' by simp
    also have "\<dots> \<le> n" by simp
    finally show ?thesis using b b' by simp
  qed
qed

lemma roundHalfEven_exact: "roundHalfEven n 0 = n"
  by (simp add: roundHalfEven_def)

lemma roundHalfEven_lower: "(n div 2 ^ s) * 2 ^ s \<le> roundHalfEven n s * 2 ^ s"
  by (simp add: roundHalfEven_def Let_def)

lemma roundHalfEven_upper: "2 * (roundHalfEven n s * 2 ^ s) \<le> 2 * n + 2 ^ s"
proof (cases "s = 0")
  case True
  then show ?thesis by (simp add: roundHalfEven_def)
next
  case False
  define k where "k = n div 2 ^ s"
  define r where "r = n mod 2 ^ s"
  have n: "n = k * 2 ^ s + r"
    using div_mult_mod_eq[of n "2 ^ s"] by (simp add: k_def r_def)
  show ?thesis
  proof (cases "2 * r < 2 ^ s \<or> (2 * r = 2 ^ s \<and> even k)")
    case True
    then have "roundHalfEven n s = k"
      using False by (simp add: roundHalfEven_def Let_def k_def r_def)
    then show ?thesis using n by simp
  next
    case c: False
    then have "roundHalfEven n s = k + 1"
      using False by (simp add: roundHalfEven_def Let_def k_def r_def)
    moreover have "2 ^ s \<le> 2 * r" using c by linarith
    ultimately show ?thesis using n by (simp add: algebra_simps)
  qed
qed

lemma timesDouble_bounds:
  assumes "isUnitDouble (Draw m q)" and "c \<le> 8"
  shows "\<exists>N. timesDouble (Draw m q) c = Draw N q
           \<and> (m * c) div 2 ^ q \<le> N div 2 ^ q
           \<and> real N \<le> real (m * c) + 2 ^ q / 2 ^ 51"
proof -
  define n where "n = m * c"
  define s where "s = bitLength n - 53"
  define N where "N = roundHalfEven n s * 2 ^ s"
  have td: "timesDouble (Draw m q) c = Draw N q"
    by (simp add: Let_def n_def s_def N_def)
  have "n div 2 ^ q \<le> N div 2 ^ q \<and> real N \<le> real n + 2 ^ q / 2 ^ 51"
  proof (cases "s = 0")
    case True
    then have "N = n" by (simp add: N_def roundHalfEven_exact)
    then show ?thesis by simp
  next
    case False
    then have bl: "bitLength n - 1 = 52 + s" by (simp add: s_def)
    have "0 < n" using False bitLength.simps[of n] by (cases "n = 0") (simp_all add: s_def)
    then have lo: "(2::nat) ^ (52 + s) \<le> n" using bitLength_ge[of n] bl by simp
    have "m < 2 ^ q" using assms(1) by simp
    then have "m * 8 < 2 ^ q * 8" by simp
    moreover have "m * c \<le> m * 8" using assms(2) by (rule mult_le_mono2)
    ultimately have "m * c < 2 ^ q * 8" by linarith
    then have "n < 2 ^ (q + 3)" by (simp add: n_def power_add)
    then have "(2::nat) ^ (52 + s) < 2 ^ (q + 3)" using lo by linarith
    then have "52 + s < q + 3" by (simp only: power_strict_increasing_iff one_less_numeral_iff semiring_norm)
    then have sq: "s + 50 \<le> q" by simp
    define j where "j = n div 2 ^ q"
    have pq: "(2::nat) ^ q = 2 ^ (q - s) * 2 ^ s"
      using sq by (simp flip: power_add)
    have "j * 2 ^ q \<le> n" by (simp add: j_def)
    then have "(j * 2 ^ (q - s)) * 2 ^ s \<le> n" by (simp add: pq mult.assoc)
    then have "j * 2 ^ (q - s) \<le> n div 2 ^ s"
      by (simp add: less_eq_div_iff_mult_less_eq)
    then have "(j * 2 ^ (q - s)) * 2 ^ s \<le> (n div 2 ^ s) * 2 ^ s" by simp
    also have "\<dots> \<le> N" unfolding N_def by (rule roundHalfEven_lower)
    finally have "j * 2 ^ q \<le> N" by (simp add: pq mult.assoc)
    then have a: "j \<le> N div 2 ^ q" by (simp add: less_eq_div_iff_mult_less_eq)
    have "2 * N \<le> 2 * n + 2 ^ s" unfolding N_def by (rule roundHalfEven_upper)
    then have "real (2 * N) \<le> real (2 * n + 2 ^ s)" by (rule of_nat_mono)
    then have up: "real N \<le> real n + 2 ^ s / 2" by simp
    have "(2::real) ^ (s + 51) \<le> 2 ^ (q + 1)"
      using sq by (intro power_increasing) simp_all
    then have "(2::real) ^ s / 2 \<le> 2 ^ q / 2 ^ 51"
      by (simp add: field_simps power_add)
    then show ?thesis using a up by (simp add: j_def)
  qed
  then show ?thesis using td by (simp add: n_def)
qed

lemma drawValue_range:
  assumes "isUnitDouble rnd"
  shows "0 \<le> drawValue rnd \<and> drawValue rnd \<le> 1 - 1 / 2 ^ 53"
proof -
  obtain m q where rnd: "rnd = Draw m q" by (cases rnd)
  have m: "m < 2 ^ 53" "m < 2 ^ q" using assms rnd by simp_all
  have "real m / 2 ^ q \<le> 1 - 1 / 2 ^ 53"
  proof (cases "q \<le> 53")
    case True
    have "m + 1 \<le> 2 ^ q" using m(2) by simp
    then have "real (m + 1) \<le> real (2 ^ q)" by (rule of_nat_mono)
    then have "real m / 2 ^ q \<le> 1 - 1 / 2 ^ q" by (simp add: field_simps)
    moreover have "(2::real) ^ q \<le> 2 ^ 53" using True by (intro power_increasing) simp_all
    then have "1 / (2::real) ^ 53 \<le> 1 / 2 ^ q" by (intro divide_left_mono) simp_all
    ultimately show ?thesis by linarith
  next
    case False
    have "m + 1 \<le> 2 ^ 53" using m(1) by simp
    then have "real (m + 1) \<le> real (2 ^ 53)" by (rule of_nat_mono)
    then have 1: "real m \<le> 2 ^ 53 - 1" by simp
    have "(2::real) ^ 54 \<le> 2 ^ q" using False by (intro power_increasing) simp_all
    then have "real m * 2 \<le> 2 ^ q" using 1 by simp
    then have "real m / 2 ^ q \<le> 1 / 2" by (simp add: field_simps)
    moreover have "(1 / 2 :: real) \<le> 1 - 1 / 2 ^ 53" by simp
    ultimately show ?thesis by linarith
  qed
  then show ?thesis using rnd by simp
qed

lemma floor_timesDouble:
  assumes "isUnitDouble rnd" and "c \<le> 8"
  shows "\<lfloor>real c * drawValue rnd\<rfloor> \<le> floorDraw (timesDouble rnd c)
       \<and> floorDraw (timesDouble rnd c) \<le> \<lfloor>real c * drawValue rnd + 1 / 2 ^ 51\<rfloor>"
proof -
  obtain m q where rnd: "rnd = Draw m q" by (cases rnd)
  obtain N where N: "timesDouble (Draw m q) c = Draw N q"
      "(m * c) div 2 ^ q \<le> N div 2 ^ q" "real N \<le> real (m * c) + 2 ^ q / 2 ^ 51"
    using timesDouble_bounds[OF assms[unfolded rnd]] by blast
  have fl: "\<lfloor>real k / 2 ^ q\<rfloor> = int (k div 2 ^ q)" for k
    using floor_divide_of_nat_eq[of k "2 ^ q", where ?'a = real] by simp
  have y: "real c * drawValue rnd = real (m * c) / 2 ^ q" by (simp add: rnd)
  have "\<lfloor>real c * drawValue rnd\<rfloor> = int ((m * c) div 2 ^ q)"
    unfolding y by (rule fl)
  then have a: "\<lfloor>real c * drawValue rnd\<rfloor> \<le> floorDraw (timesDouble rnd c)"
    using N(1,2) rnd by simp
  have "real N / 2 ^ q \<le> (real (m * c) + 2 ^ q / 2 ^ 51) / 2 ^ q"
    using N(3) by (intro divide_right_mono) simp_all
  also have "\<dots> = real c * drawValue rnd + 1 / 2 ^ 51"
    unfolding y by (simp add: add_divide_distrib)
  finally have "\<lfloor>real N / 2 ^ q\<rfloor> \<le> \<lfloor>real c * drawValue rnd + 1 / 2 ^ 51\<rfloor>"
    by (rule floor_mono)
  then have b: "floorDraw (timesDouble rnd c) \<le> \<lfloor>real c * drawValue rnd + 1 / 2 ^ 51\<rfloor>"
    using N(1) rnd fl[of N] by simp
  show ?thesis using a b by blast
qed


lemma face_interval:
  fixes x e c :: real and F k :: int
  assumes lo: "\<lfloor>c * x\<rfloor> \<le> F" and hi: "F \<le> \<lfloor>c * x + e\<rfloor>" and c: "1 < c" and e: "0 < e"
  shows "(real_of_int (k - 1) / c \<le> x \<and> x \<le> real_of_int k / c - e \<longrightarrow> F + 1 = k)
       \<and> (F + 1 = k \<longrightarrow> real_of_int (k - 1) / c - e \<le> x \<and> x < real_of_int k / c)"
proof (intro conjI impI)
  assume a: "real_of_int (k - 1) / c \<le> x \<and> x \<le> real_of_int k / c - e"
  have "real_of_int (k - 1) \<le> c * x"
    using a c by (simp add: field_simps)
  then have "k - 1 \<le> \<lfloor>c * x\<rfloor>" by (simp add: le_floor_iff)
  then have 1: "k - 1 \<le> F" using lo by linarith
  have "x + e \<le> real_of_int k / c" using a by linarith
  then have "c * (x + e) \<le> real_of_int k" using c by (simp add: field_simps)
  moreover have "e < c * e" using c e by simp
  ultimately have "c * x + e < real_of_int k" by (simp add: algebra_simps)
  then have "\<lfloor>c * x + e\<rfloor> < k" by (simp add: floor_less_iff)
  then have "F < k" using hi by linarith
  then show "F + 1 = k" using 1 by linarith
next
  assume f: "F + 1 = k"
  have "k - 1 \<le> \<lfloor>c * x + e\<rfloor>" using hi f by linarith
  then have "real_of_int (k - 1) \<le> c * x + e" by (simp add: le_floor_iff)
  moreover have "e \<le> c * e" using c e by simp
  ultimately have "real_of_int (k - 1) \<le> c * (x + e)" by (simp add: algebra_simps)
  then have "real_of_int (k - 1) / c \<le> x + e" using c by (simp add: field_simps)
  then show "real_of_int (k - 1) / c - e \<le> x" by linarith
next
  assume f: "F + 1 = k"
  have "\<lfloor>c * x\<rfloor> < k" using lo f by linarith
  then have "c * x < real_of_int k" by (simp add: floor_less_iff)
  then show "x < real_of_int k / c" using c by (simp add: field_simps)
qed

lemma face_range:
  assumes "isUnitDouble rnd" and "5 \<le> c" and "c \<le> 8"
  shows "0 \<le> floorDraw (timesDouble rnd c) \<and> floorDraw (timesDouble rnd c) < int c"
proof -
  have "0 \<le> floorDraw (timesDouble rnd c)"
    by (cases "timesDouble rnd c") simp
  moreover have "floorDraw (timesDouble rnd c) < int c"
  proof -
    have x: "drawValue rnd \<le> 1 - 1 / 2 ^ 53" using drawValue_range[OF assms(1)] by simp
    have "real c * drawValue rnd \<le> real c * (1 - 1 / 2 ^ 53)"
      using x by (intro mult_left_mono) simp_all
    also have "\<dots> = real c - real c / 2 ^ 53" by (simp add: algebra_simps)
    finally have A: "real c * drawValue rnd \<le> real c - real c / 2 ^ 53" .
    have "(4::real) < real c" using assms(2) by simp
    then have "(4::real) / 2 ^ 53 < real c / 2 ^ 53" by (rule divide_strict_right_mono) simp
    then have B: "(1 / 2 ^ 51 :: real) < real c / 2 ^ 53" by simp
    have "real c * drawValue rnd + 1 / 2 ^ 51 < real c" using A B by linarith
    then have "real c * drawValue rnd + 1 / 2 ^ 51 < real_of_int (int c)" by simp
    then have "\<lfloor>real c * drawValue rnd + 1 / 2 ^ 51\<rfloor> < int c" by (simp only: floor_less_iff)
    then show ?thesis using floor_timesDouble[OF assms(1,3)] by linarith
  qed
  ultimately show ?thesis by blast
qed

lemma rollDice_returns_draw:
  "canRollDice gs \<Longrightarrow> \<exists>gs'. rollDice gs rnd = Inr (drawDice gs rnd, gs')"
  by (simp add: rollDice_def Let_def passTurn_def)

text \<open>
  C1. In every state in which rolling is allowed, with \<open>rnd\<close> the double in [0, 1)
  that \<open>Math.random()\<close> returns: \<open>rollDice\<close> returns a dice value \<open>d\<close>. If the
  consecutive-six counter is at least 2 then \<open>d\<close> lies in 1..5, so it is never a six;
  otherwise \<open>d\<close> lies in 1..6. With \<open>c\<close> the number of faces (5 or 6), the draws
  that give the face \<open>k\<close> are those of the interval [(k-1)/c, k/c), up to the rounding
  of the double product at the two ends: every draw from (k-1)/c up to k/c - 2^-51
  gives \<open>k\<close>, and every draw that gives \<open>k\<close> lies in [(k-1)/c - 2^-51, k/c). The
  faces so have intervals of equal length up to 2^-51: the dice is uniform when the
  draw is.
\<close>

theorem C1_roll_dice_range:
  assumes "canRollDice gs" and "isUnitDouble rnd"
  shows "\<exists>d gs'. rollDice gs rnd = Inr (d, gs') \<and>
     (if consecutiveSixes gs \<ge> 2
      then 1 \<le> d \<and> d \<le> 5 \<and> d \<noteq> 6 \<and>
           (\<forall>k. (real_of_int (k - 1) / 5 \<le> drawValue rnd
                  \<and> drawValue rnd \<le> real_of_int k / 5 - 1 / 2 ^ 51 \<longrightarrow> d = k)
               \<and> (d = k \<longrightarrow> real_of_int (k - 1) / 5 - 1 / 2 ^ 51 \<le> drawValue rnd
                            \<and> drawValue rnd < real_of_int k / 5))
      else 1 \<le> d \<and> d \<le> 6 \<and>
           (\<forall>k. (real_of_int (k - 1) / 6 \<le> drawValue rnd
                  \<and> drawValue rnd \<le> real_of_int k / 6 - 1 / 2 ^ 51 \<longrightarrow> d = k)
               \<and> (d = k \<longrightarrow> real_of_int (k - 1) / 6 - 1 / 2 ^ 51 \<le> drawValue rnd
                            \<and> drawValue rnd < real_of_int k / 6)))"
proof -
  obtain gs' where r: "rollDice gs rnd = Inr (drawDice gs rnd, gs')"
    using rollDice_returns_draw[OF assms(1)] by blast
  have face: "(real_of_int (k - 1) / real c \<le> drawValue rnd
                  \<and> drawValue rnd \<le> real_of_int k / real c - 1 / 2 ^ 51
                \<longrightarrow> floorDraw (timesDouble rnd c) + 1 = k)
            \<and> (floorDraw (timesDouble rnd c) + 1 = k
                \<longrightarrow> real_of_int (k - 1) / real c - 1 / 2 ^ 51 \<le> drawValue rnd
                            \<and> drawValue rnd < real_of_int k / real c)"
    if "5 \<le> c" "c \<le> 8" for c k
  proof -
    have "1 < real c" using that by simp
    moreover have "(0::real) < 1 / 2 ^ 51" by simp
    ultimately show ?thesis
      using face_interval[of "real c" "drawValue rnd" "floorDraw (timesDouble rnd c)" "1 / 2 ^ 51" k]
        floor_timesDouble[OF assms(2) that(2)] by blast
  qed
  show ?thesis
  proof (cases "consecutiveSixes gs \<ge> 2")
    case True
    then have d: "drawDice gs rnd = floorDraw (timesDouble rnd 5) + 1"
      by (simp add: drawDice_def)
    have "1 \<le> drawDice gs rnd \<and> drawDice gs rnd \<le> 5"
      using face_range[OF assms(2), of 5] d by simp
    moreover have "(real_of_int (k - 1) / 5 \<le> drawValue rnd
                  \<and> drawValue rnd \<le> real_of_int k / 5 - 1 / 2 ^ 51 \<longrightarrow> drawDice gs rnd = k)
               \<and> (drawDice gs rnd = k \<longrightarrow> real_of_int (k - 1) / 5 - 1 / 2 ^ 51 \<le> drawValue rnd
                            \<and> drawValue rnd < real_of_int k / 5)" for k
      using face[of 5 k] unfolding d by simp
    ultimately show ?thesis using r True by auto
  next
    case False
    then have d: "drawDice gs rnd = floorDraw (timesDouble rnd 6) + 1"
      by (simp add: drawDice_def)
    have "1 \<le> drawDice gs rnd \<and> drawDice gs rnd \<le> 6"
      using face_range[OF assms(2), of 6] d by simp
    moreover have "(real_of_int (k - 1) / 6 \<le> drawValue rnd
                  \<and> drawValue rnd \<le> real_of_int k / 6 - 1 / 2 ^ 51 \<longrightarrow> drawDice gs rnd = k)
               \<and> (drawDice gs rnd = k \<longrightarrow> real_of_int (k - 1) / 6 - 1 / 2 ^ 51 \<le> drawValue rnd
                            \<and> drawValue rnd < real_of_int k / 6)" for k
      using face[of 6 k] unfolding d by simp
    ultimately show ?thesis using r False by auto
  qed
qed

text \<open>
  After two sixes the draw 0.6 gives a 4 (its product with 5 rounds up to 3); with the
  counter at 0 the draw 0.8333333333333333 gives a 6 (its product with 6 rounds up
  to 5) and the draw 0.5 a 4.
\<close>

theorem C1_roll_dice_range_witness:
  "(\<exists>gs'. rollDice (freshGame\<lparr>consecutiveSixes := 2\<rparr>) (Draw 5404319552844595 53) = Inr (4, gs'))
   \<and> (\<exists>gs'. rollDice freshGame (Draw 3752999689475413 52) = Inr (6, gs'))
   \<and> (\<exists>gs'. rollDice freshGame (Draw 1 1) = Inr (4, gs'))"
proof -
  have a: "canRollDice (freshGame\<lparr>consecutiveSixes := 2\<rparr>)" "canRollDice freshGame"
    by (simp_all add: freshGame_def initializeGame_def)
  have b: "isUnitDouble (Draw 5404319552844595 53)" "isUnitDouble (Draw 3752999689475413 52)"
      "isUnitDouble (Draw 1 1)"
    by simp_all
  have v: "drawValue (Draw 1 1) = 1 / 2" by simp
  obtain d gs' where 1: "rollDice (freshGame\<lparr>consecutiveSixes := 2\<rparr>) (Draw 5404319552844595 53) = Inr (d, gs')"
    using C1_roll_dice_range[OF a(1) b(1)] by blast
  obtain e gs'' where 2: "rollDice freshGame (Draw 3752999689475413 52) = Inr (e, gs'')"
    using C1_roll_dice_range[OF a(2) b(2)] by blast
  obtain f gs3 where 3: "rollDice freshGame (Draw 1 1) = Inr (f, gs3)"
    and "\<forall>k. (real_of_int (k - 1) / 6 \<le> drawValue (Draw 1 1)
                  \<and> drawValue (Draw 1 1) \<le> real_of_int k / 6 - 1 / 2 ^ 51 \<longrightarrow> f = k)"
    using C1_roll_dice_range[OF a(2) b(3)] by (auto simp: freshGame_def initializeGame_def)
  then have "real_of_int (4 - 1) / 6 \<le> drawValue (Draw 1 1)
                  \<and> drawValue (Draw 1 1) \<le> real_of_int 4 / 6 - 1 / 2 ^ 51 \<longrightarrow> f = 4"
    by blast
  then have f: "f = 4" unfolding v by simp
  have "d = drawDice (freshGame\<lparr>consecutiveSixes := 2\<rparr>) (Draw 5404319552844595 53)"
    using 1 a(1) by (simp add: rollDice_def Let_def passTurn_def split: if_splits)
  then have d: "d = 4"
    by (simp add: drawDice_def freshGame_def initializeGame_def roundHalfEven_def Let_def bitLength_eval)
  have "e = drawDice freshGame (Draw 3752999689475413 52)"
    using 2 a(2) by (simp add: rollDice_def Let_def passTurn_def split: if_splits)
  then have e: "e = 6"
    by (simp add: drawDice_def freshGame_def initializeGame_def roundHalfEven_def Let_def bitLength_eval)
  show ?thesis using 1 2 3 d e f by blast
qed

lemma js_succ_rem_next:
  assumes "0 \<le> i" "0 < n"
  shows "js_succ_rem (Num i) n = Num ((i + 1) mod n)"
  using assms by (simp add: js_succ_rem_def js_rem_def)

lemma computeValidMoves_empty:
  assumes "\<forall>t \<in> set (tokens gs). Some (tok_color t) = pc \<and> \<not> isFinished t
             \<longrightarrow> calculateNewPosition t d = None"
  shows "computeValidMoves gs pc d = []"
  using assms by (auto simp: computeValidMoves_def filter_empty_conv)

text \<open>
  C2. In every state in which rolling is allowed, with the turn index \<open>i\<close> pointing
  into the colour order: if no unfinished token of the active colour has a destination
  for the drawn dice value, \<open>rollDice\<close> returns that value together with a state in
  which the turn index is the next player's, \<open>(i + 1) mod n\<close>, \<open>validMoves\<close> is
  empty and rolling is allowed again.
\<close>

theorem C2_roll_without_move_passes_turn:
  assumes "canRollDice gs"
      and "currentTurnPlayerIndex gs = Num i" and "0 \<le> i"
      and "i < int (length (playerColorOrder gs))"
      and "\<forall>t \<in> set (tokens gs).
             Some (tok_color t) = getCurrentPlayerColor gs \<and> \<not> isFinished t
               \<longrightarrow> calculateNewPosition t (drawDice gs rnd) = None"
  shows "\<exists>gs'. rollDice gs rnd = Inr (drawDice gs rnd, gs')
           \<and> currentTurnPlayerIndex gs' = Num ((i + 1) mod int (length (playerColorOrder gs)))
           \<and> validMoves gs' = []
           \<and> canRollDice gs'"
proof -
  let ?s = "gs\<lparr> diceValue := Some (drawDice gs rnd), canRollDice := False, validMoves := [] \<rparr>"
  have "computeValidMoves ?s (getCurrentPlayerColor gs) (drawDice gs rnd) = []"
    using assms(5) by (intro computeValidMoves_empty) simp
  then have "rollDice gs rnd = Inr (passTurn ?s (drawDice gs rnd))"
    using assms(1) by (simp add: rollDice_def Let_def)
  moreover have "js_succ_rem (Num i) (int (length (playerColorOrder gs)))
                   = Num ((i + 1) mod int (length (playerColorOrder gs)))"
    using assms(3,4) by (intro js_succ_rem_next) linarith+
  ultimately show ?thesis
    using assms(2) by (simp add: passTurn_def Let_def)
qed

text \<open>
  In a fresh two-player game every token is at home; the draw 0.5 gives a 4, no red
  token can leave home, and the turn goes to the second player.
\<close>

theorem C2_roll_without_move_passes_turn_witness:
  "\<exists>gs'. rollDice freshGame (Draw 1 1) = Inr (4, gs')
           \<and> currentTurnPlayerIndex gs' = Num 1 \<and> validMoves gs' = [] \<and> canRollDice gs'"
proof -
  have d: "drawDice freshGame (Draw 1 1) = 4"
    by (simp add: drawDice_def freshGame_def initializeGame_def roundHalfEven_def Let_def
          bitLength_eval)
  have n: "int (length (playerColorOrder freshGame)) = 2"
    by (simp add: freshGame_def initializeGame_def)
  have "\<forall>t \<in> set (tokens freshGame).
          Some (tok_color t) = getCurrentPlayerColor freshGame \<and> \<not> isFinished t
            \<longrightarrow> calculateNewPosition t (drawDice freshGame (Draw 1 1)) = None"
    unfolding d
    by (simp add: freshGame_def initializeGame_def newToken_def ann_def bob_def
          calculateNewPosition_def)
  from C2_roll_without_move_passes_turn[of freshGame 0, OF _ _ _ _ this]
  show ?thesis
    unfolding d n by (simp add: freshGame_def initializeGame_def)
qed


section \<open>Facts about find, findIndex and moveToken\<close>

lemma findIndex_Some:
  "findIndex P xs = Some i \<Longrightarrow> i < length xs \<and> P (xs ! i) \<and> (\<forall>j<i. \<not> P (xs ! j))"
proof (induction xs arbitrary: i)
  case Nil
  then show ?case by simp
next
  case (Cons x xs)
  show ?case
  proof (cases "P x")
    case True
    with Cons.prems show ?thesis by simp
  next
    case False
    with Cons.prems obtain k where k: "findIndex P xs = Some k" "i = Suc k" by auto
    from Cons.IH[OF k(1)] False k(2) show ?thesis
      by (auto simp: nth_Cons split: nat.splits)
  qed
qed

lemma find_findIndex:
  "find P xs = Some x \<Longrightarrow> \<exists>i. findIndex P xs = Some i \<and> xs ! i = x"
  by (induction xs) (auto split: if_splits)

lemma find_first:
  "i < length xs \<Longrightarrow> P (xs ! i) \<Longrightarrow> \<forall>j<i. \<not> P (xs ! j) \<Longrightarrow> find P xs = Some (xs ! i)"
proof (induction xs arbitrary: i)
  case Nil
  then show ?case by simp
next
  case (Cons x xs)
  show ?case
  proof (cases i)
    case 0
    with Cons.prems show ?thesis by simp
  next
    case (Suc k)
    with Cons.prems have "\<not> P x" by auto
    moreover have "find P xs = Some (xs ! k)"
      using Cons.prems Suc by (intro Cons.IH) auto
    ultimately show ?thesis using Suc by simp
  qed
qed

lemma find_Some_set: "find P xs = Some x \<Longrightarrow> x \<in> set xs \<and> P x"
  by (induction xs) (auto split: if_splits)

lemma find_None_set: "find P xs = None \<longleftrightarrow> (\<forall>x \<in> set xs. \<not> P x)"
  by (induction xs) auto

text \<open>Overwriting the first element that satisfies \<open>P\<close> by one that satisfies it.\<close>

lemma find_update_first:
  assumes "findIndex P xs = Some i" "P y"
  shows "find P (xs[i := y]) = Some y"
proof -
  from findIndex_Some[OF assms(1)] have i: "i < length xs" "\<forall>j<i. \<not> P (xs ! j)" by auto
  have "find P (xs[i := y]) = Some ((xs[i := y]) ! i)"
    using i assms(2) by (intro find_first) auto
  then show ?thesis using i by simp
qed

lemma distinct_map_nth_eq:
  "distinct (map f xs) \<Longrightarrow> i < length xs \<Longrightarrow> j < length xs \<Longrightarrow> f (xs ! i) = f (xs ! j) \<Longrightarrow> i = j"
  by (metis distinct_conv_nth length_map nth_map)

lemma distinct_ids_eq:
  assumes "distinct (map tok_id ts)" "u \<in> set ts" "t \<in> set ts" "tok_id u = tok_id t"
  shows "u = t"
  using assms by (auto simp: distinct_map dest: inj_onD)

text \<open>What a successful \<open>moveToken\<close> went through.\<close>

lemma moveToken_Inr:
  assumes "moveToken gs tid now = Inr gs'"
  obtains dice token newPosition tokenIndex where
    "diceValue gs = Some dice"
    "find (\<lambda>t. tok_id t = tid) (tokens gs) = Some token"
    "Some (tok_color token) = getCurrentPlayerColor gs"
    "tid \<in> set (validMoves gs)"
    "calculateNewPosition token dice = Some newPosition"
    "findIndex (\<lambda>t. tok_id t = tid) (tokens gs) = Some tokenIndex"
    "gs' = applyMove gs token dice newPosition tokenIndex now"
  using assms unfolding moveToken_def
  by (auto split: option.splits if_splits)

lemma applyMove_tokens:
  "tokens (applyMove gs token dice np ti now)
     = (fst (checkCapture (tokens gs) token np))[ti := movedToken token np]"
  by (simp add: applyMove_def Let_def passTurn_def split: prod.splits)

lemma applyMove_history:
  "moveHistory (applyMove gs token dice np ti now)
     = moveHistory gs @
         [\<lparr> playerColor = tok_color token, tokenId = tok_id token,
            from_pos = position (tokens gs ! ti), to_pos = np,
            timestamp = now, capturedTokenId = snd (checkCapture (tokens gs) token np) \<rparr>]"
  by (simp add: applyMove_def Let_def passTurn_def split: prod.splits)

lemma applyMove_winner:
  "winner (applyMove gs token dice np ti now)
     = checkWinner ((fst (checkCapture (tokens gs) token np))[ti := movedToken token np])"
  by (simp add: applyMove_def Let_def passTurn_def split: prod.splits)

lemma applyMove_cleared:
  "diceValue (applyMove gs token dice np ti now) = None
   \<and> canRollDice (applyMove gs token dice np ti now)
   \<and> validMoves (applyMove gs token dice np ti now) = []"
  by (simp add: applyMove_def Let_def passTurn_def split: prod.splits)

lemma checkCapture_off_ring:
  "np > 51 \<Longrightarrow> checkCapture ts token np = (ts, None)"
  by (simp add: checkCapture_def)


section \<open>Tokens in play: ids and flags\<close>

text \<open>
  The theorems below speak of token lists with distinct, non-empty ids and of tokens
  whose flags agree with their position. A game started for players of distinct colours
  is such a state, and rolling and moving keep it so.
\<close>

lemma colorName_inj: "colorName c = colorName c' \<longleftrightarrow> c = c'"
  by (cases c; cases c'; simp)

lemma token_id_eq:
  "colorName c @ ''-'' @ [x] = colorName c' @ ''-'' @ [y] \<longleftrightarrow> c = c' \<and> x = y"
  by (cases c; cases c'; simp)

lemma newToken_ids_distinct:
  "distinct (map (tok_id \<circ> newToken p) [0, 1, 2, 3])"
  by (simp add: newToken_def digits_def token_id_eq)

lemma initializeGame_token_colors:
  "t \<in> set (tokens (initializeGame ps)) \<Longrightarrow>
     \<exists>p \<in> set ps. \<exists>i. t = newToken p i"
  by (auto simp: initializeGame_def)

lemma initializeGame_ids_distinct:
  "distinct (map player_color ps) \<Longrightarrow> distinct (map tok_id (tokens (initializeGame ps)))"
proof (induction ps)
  case Nil
  then show ?case by (simp add: initializeGame_def)
next
  case (Cons p ps)
  have split: "tokens (initializeGame (p # ps))
                 = map (newToken p) [0, 1, 2, 3] @ tokens (initializeGame ps)"
    by (simp add: initializeGame_def)
  have rest: "distinct (map tok_id (tokens (initializeGame ps)))"
    using Cons by simp
  have apart: "tok_id (newToken p i) \<noteq> tok_id t" if "t \<in> set (tokens (initializeGame ps))" for i t
  proof -
    from initializeGame_token_colors[OF that] obtain q j
      where q: "q \<in> set ps" "t = newToken q j" by blast
    from Cons.prems have "player_color p \<notin> player_color ` set ps" by simp
    with q(1) have "player_color q \<noteq> player_color p" by (metis imageI)
    with q(2) show ?thesis by (auto simp: newToken_def colorName_inj)
  qed
  have "set (map tok_id (map (newToken p) [0, 1, 2, 3]))
          \<inter> set (map tok_id (tokens (initializeGame ps))) = {}"
    using apart by auto
  with rest newToken_ids_distinct[of p] show ?case
    unfolding split by (simp only: map_append distinct_append map_map)
qed

lemma initializeGame_ids_nonempty:
  "[] \<notin> tok_id ` set (tokens (initializeGame ps))"
  by (auto simp: initializeGame_def newToken_def)

lemma initializeGame_wf:
  "t \<in> set (tokens (initializeGame ps)) \<Longrightarrow> wfToken t"
  by (auto simp: initializeGame_def newToken_def wfToken_def)

lemma rollDice_tokens:
  "rollDice gs rnd = Inr (d, gs') \<Longrightarrow> tokens gs' = tokens gs"
  by (auto simp: rollDice_def Let_def passTurn_def split: if_splits)

lemma checkCapture_ids:
  "map tok_id (fst (checkCapture ts t np)) = map tok_id ts"
proof (cases "find (capturable t np) ts")
  case None
  then show ?thesis by (simp add: checkCapture_def)
next
  case (Some u)
  show ?thesis
  proof (cases "findIndex (\<lambda>x. tok_id x = tok_id u) ts")
    case None
    with Some show ?thesis by (simp add: checkCapture_def)
  next
    case ci: (Some ci)
    from findIndex_Some[OF ci] have "ci < length ts" "tok_id (ts ! ci) = tok_id u" by auto
    then have "map tok_id (ts[ci := sentHome u]) = map tok_id ts"
      by (intro nth_equalityI) (auto simp: nth_list_update sentHome_def)
    with Some ci show ?thesis by (simp add: checkCapture_def)
  qed
qed

lemma moveToken_ids:
  assumes "moveToken gs tid now = Inr gs'"
  shows "map tok_id (tokens gs') = map tok_id (tokens gs)"
proof -
  from assms obtain d t np ti where m:
      "find (\<lambda>x. tok_id x = tid) (tokens gs) = Some t"
      "findIndex (\<lambda>x. tok_id x = tid) (tokens gs) = Some ti"
      "gs' = applyMove gs t d np ti now"
    by (rule moveToken_Inr)
  from findIndex_Some[OF m(2)] find_Some_set[OF m(1)]
  have i: "ti < length (tokens gs)" "tok_id (tokens gs ! ti) = tok_id t" by auto
  let ?cap = "fst (checkCapture (tokens gs) t np)"
  have "map tok_id (?cap[ti := movedToken t np]) = (map tok_id ?cap)[ti := tok_id t]"
    by (simp add: map_update movedToken_def)
  also have "\<dots> = (map tok_id (tokens gs))[ti := tok_id t]"
    by (simp only: checkCapture_ids)
  also have "\<dots> = map tok_id (tokens gs)"
    using i by (intro nth_equalityI) (auto simp: nth_list_update)
  finally show ?thesis by (simp add: m(3) applyMove_tokens)
qed

lemma calculateNewPosition_range:
  assumes "wfToken t" "1 \<le> d" "d \<le> 6" "calculateNewPosition t d = Some np"
  shows "0 \<le> np \<and> np \<le> 57"
proof -
  have s: "0 \<le> START_POS (tok_color t) \<and> START_POS (tok_color t) \<le> 57"
    by (cases "tok_color t") simp_all
  have g: "0 \<le> GATEWAY (tok_color t) \<and> GATEWAY (tok_color t) \<le> 51"
    by (cases "tok_color t") simp_all
  from assms s g show ?thesis
    by (auto simp: calculateNewPosition_def wfToken_def stepsFromTo_def Let_def
          split: if_splits)
qed

lemma movedToken_wf: "0 \<le> np \<Longrightarrow> np \<le> 57 \<Longrightarrow> wfToken (movedToken t np)"
  by (auto simp: wfToken_def movedToken_def)

lemma sentHome_wf: "\<not> isFinished u \<Longrightarrow> wfToken (sentHome u)"
  by (simp add: wfToken_def sentHome_def)

lemma checkCapture_wf:
  assumes "\<forall>x \<in> set ts. wfToken x" "x \<in> set (fst (checkCapture ts t np))"
  shows "wfToken x"
proof (cases "find (capturable t np) ts")
  case None
  with assms show ?thesis by (simp add: checkCapture_def split: if_splits)
next
  case (Some u)
  from find_Some_set[OF Some] have u: "\<not> isFinished u" by (simp add: capturable_def)
  from assms(2) Some have "x \<in> set ts \<or> x = sentHome u"
    by (auto simp: checkCapture_def split: if_splits option.splits
          dest: set_update_subset_insert[THEN subsetD])
  with assms(1) sentHome_wf[OF u] show ?thesis by auto
qed

lemma moveToken_wf:
  assumes "moveToken gs tid now = Inr gs'" "diceValue gs = Some d" "1 \<le> d" "d \<le> 6"
      and "\<forall>x \<in> set (tokens gs). wfToken x"
      and "x \<in> set (tokens gs')"
  shows "wfToken x"
proof -
  from assms(1) obtain d' t np ti where m:
      "diceValue gs = Some d'" "find (\<lambda>x. tok_id x = tid) (tokens gs) = Some t"
      "calculateNewPosition t d' = Some np" "gs' = applyMove gs t d' np ti now"
    by (rule moveToken_Inr)
  with assms(2) have [simp]: "d' = d" by simp
  from find_Some_set[OF m(2)] assms(5) have "wfToken t" by auto
  from calculateNewPosition_range[OF this assms(3,4)] m(3)
  have "wfToken (movedToken t np)" by (intro movedToken_wf) auto
  moreover from assms(6) have "x \<in> set (fst (checkCapture (tokens gs) t np)) \<or> x = movedToken t np"
    using set_update_subset_insert[of "fst (checkCapture (tokens gs) t np)" ti "movedToken t np"]
    by (auto simp: m(4) applyMove_tokens)
  ultimately show ?thesis using checkCapture_wf[OF assms(5)] by auto
qed


section \<open>Movement on the ring and in the home stretch\<close>

lemma stepsFromTo_mod:
  assumes "0 \<le> p" "p \<le> 51" "0 \<le> g" "g \<le> 51"
  shows "stepsFromTo p g = (g - p) mod 52"
proof (cases "g \<ge> p")
  case True
  then have "(g - p) mod 52 = g - p"
    using assms by (intro mod_pos_pos_trivial) linarith+
  with True show ?thesis by (simp add: stepsFromTo_def)
next
  case False
  have "(g - p) mod 52 = (g - p + 52) mod 52" by simp
  also have "\<dots> = g - p + 52"
    using False assms by (intro mod_pos_pos_trivial) linarith+
  finally show ?thesis using False by (simp add: stepsFromTo_def)
qed

lemma wrap_mod:
  assumes "0 \<le> p" "p \<le> 51" "1 \<le> d" "d \<le> (6::int)"
  shows "(p + d) mod 52 = (if p + d > 51 then p + d - 52 else p + d)"
proof (cases "p + d > 51")
  case True
  have "(p + d) mod 52 = (p + d - 52) mod 52" by simp
  also have "\<dots> = p + d - 52"
    using True assms by (intro mod_pos_pos_trivial) linarith+
  finally show ?thesis using True by simp
next
  case False
  then have "(p + d) mod 52 = p + d"
    using assms by (intro mod_pos_pos_trivial) linarith+
  with False show ?thesis by simp
qed

lemma GATEWAY_range: "0 \<le> GATEWAY c \<and> GATEWAY c \<le> 51"
  by (cases c) simp_all

text \<open>
  C3. A token on the shared ring (none of the three flags set, position 0..51) and a
  dice value 1..6, with \<open>stepsToGateway\<close> the forward distance, wrapping at 52, from
  the token's position to its colour's gateway cell: if the dice is at most
  \<open>stepsToGateway\<close> the destination is \<open>(position + dice) mod 52\<close>; otherwise it is
  the lane cell \<open>52 + (dice - stepsToGateway - 1)\<close>, and there is no destination when
  that cell would exceed 56.
\<close>

theorem C3_ring_destination:
  assumes ring: "\<not> isInHome t" "\<not> isFinished t" "\<not> isInHomeStretch t"
      and pos: "0 \<le> position t" "position t \<le> 51"
      and dice: "1 \<le> d" "d \<le> 6"
  shows "calculateNewPosition t d =
     (let stepsToGateway = (GATEWAY (tok_color t) - position t) mod 52
      in if d \<le> stepsToGateway then Some ((position t + d) mod 52)
         else if 52 + (d - stepsToGateway - 1) > 56 then None
         else Some (52 + (d - stepsToGateway - 1)))"
proof -
  have s: "stepsFromTo (position t) (GATEWAY (tok_color t))
             = (GATEWAY (tok_color t) - position t) mod 52"
    using pos GATEWAY_range[of "tok_color t"] by (simp add: stepsFromTo_mod)
  have m: "(position t + d) mod 52
             = (if position t + d > 51 then position t + d - 52 else position t + d)"
    using pos dice by (rule wrap_mod)
  show ?thesis
    using ring by (simp add: calculateNewPosition_def Let_def s m)
qed

text \<open>
  A green token one step before its gateway (cell 24): a 1 lands on the gateway, a 3
  enters the lane at 53; a green token on the gateway itself overshoots with a 6; a red
  token at 50 with a 1 stays on the ring, and a blue token at 50 wraps to cell 2.
\<close>

theorem C3_ring_destination_witness:
  "calculateNewPosition \<lparr>tok_id = ''green-0'', tok_color = GREEN, position = 24,
       isInHome = False, isInHomeStretch = False, isFinished = False\<rparr> 1 = Some 25
   \<and> calculateNewPosition \<lparr>tok_id = ''green-0'', tok_color = GREEN, position = 24,
       isInHome = False, isInHomeStretch = False, isFinished = False\<rparr> 3 = Some 53
   \<and> calculateNewPosition \<lparr>tok_id = ''green-0'', tok_color = GREEN, position = 25,
       isInHome = False, isInHomeStretch = False, isFinished = False\<rparr> 6 = None
   \<and> calculateNewPosition \<lparr>tok_id = ''red-1'', tok_color = RED, position = 50,
       isInHome = False, isInHomeStretch = False, isFinished = False\<rparr> 1 = Some 51
   \<and> calculateNewPosition \<lparr>tok_id = ''blue-1'', tok_color = BLUE, position = 50,
       isInHome = False, isInHomeStretch = False, isFinished = False\<rparr> 4 = Some 2"
  using
    C3_ring_destination[of "\<lparr>tok_id = ''green-0'', tok_color = GREEN, position = 24,
       isInHome = False, isInHomeStretch = False, isFinished = False\<rparr>" 1]
    C3_ring_destination[of "\<lparr>tok_id = ''green-0'', tok_color = GREEN, position = 24,
       isInHome = False, isInHomeStretch = False, isFinished = False\<rparr>" 3]
    C3_ring_destination[of "\<lparr>tok_id = ''green-0'', tok_color = GREEN, position = 25,
       isInHome = False, isInHomeStretch = False, isFinished = False\<rparr>" 6]
    C3_ring_destination[of "\<lparr>tok_id = ''red-1'', tok_color = RED, position = 50,
       isInHome = False, isInHomeStretch = False, isFinished = False\<rparr>" 1]
    C3_ring_destination[of "\<lparr>tok_id = ''blue-1'', tok_color = BLUE, position = 50,
       isInHome = False, isInHomeStretch = False, isFinished = False\<rparr>" 4]
  by simp

section \<open>The home stretch and finished tokens\<close>

lemma moveToken_fails_without_destination:
  assumes "diceValue gs = Some d"
      and "find (\<lambda>x. tok_id x = tid) (tokens gs) = Some t"
      and "calculateNewPosition t d = None"
  shows "isl (moveToken gs tid now)"
  using assms by (simp add: moveToken_def)

lemma computeValidMoves_excludes:
  assumes "distinct (map tok_id (tokens gs))" and "t \<in> set (tokens gs)"
      and "isFinished t \<or> calculateNewPosition t d = None"
  shows "tok_id t \<notin> set (computeValidMoves gs pc d)"
proof
  assume "tok_id t \<in> set (computeValidMoves gs pc d)"
  then obtain u where u: "u \<in> set (tokens gs)" "tok_id u = tok_id t"
      "\<not> isFinished u" "calculateNewPosition u d \<noteq> None"
    by (auto simp: computeValidMoves_def)
  from assms(1) u(1) assms(2) u(2) have "u = t" by (rule distinct_ids_eq)
  with u(3,4) assms(3) show False by auto
qed

text \<open>
  C4. A token \<open>t\<close> in the private lane (only the home-stretch flag set, position
  52..56) and a dice value \<open>d\<close> in 1..6. If \<open>position + d = 57\<close> the destination is
  57, and a successful \<open>moveToken\<close> of \<open>t\<close> leaves it in the returned state at 57 with
  \<open>isFinished\<close> set and the other flags cleared. If \<open>position + d > 57\<close> there is no
  destination, \<open>moveToken\<close> of \<open>t\<close> fails, and \<open>computeValidMoves\<close> does not list
  \<open>t\<close>. A finished token \<open>f\<close> (its home flag not set, the flag that
  \<open>calculateNewPosition\<close> tests first) has no destination for any dice value \<open>e\<close>,
  \<open>moveToken\<close> of \<open>f\<close> fails, and \<open>computeValidMoves\<close> does not list \<open>f\<close>.
  (Tokens are told apart by id, so the statements about \<open>computeValidMoves\<close> are for
  token lists with distinct ids.)
\<close>

theorem C4_home_stretch_exact_finish:
  "(\<not> isInHome t \<and> \<not> isFinished t \<and> isInHomeStretch t
      \<and> 52 \<le> position t \<and> position t \<le> 56 \<and> 1 \<le> d \<and> d \<le> 6 \<longrightarrow>
      (position t + d = 57 \<longrightarrow>
         calculateNewPosition t d = Some 57
         \<and> (\<forall>gs tid now gs'.
               diceValue gs = Some d \<and> find (\<lambda>x. tok_id x = tid) (tokens gs) = Some t
                 \<and> moveToken gs tid now = Inr gs'
               \<longrightarrow> find (\<lambda>x. tok_id x = tid) (tokens gs')
                     = Some (t\<lparr> position := 57, isInHome := False,
                                isInHomeStretch := False, isFinished := True \<rparr>)))
      \<and> (position t + d > 57 \<longrightarrow>
         calculateNewPosition t d = None
         \<and> (\<forall>gs tid now.
               diceValue gs = Some d \<and> find (\<lambda>x. tok_id x = tid) (tokens gs) = Some t
               \<longrightarrow> isl (moveToken gs tid now))
         \<and> (\<forall>gs pc.
               distinct (map tok_id (tokens gs)) \<and> t \<in> set (tokens gs)
               \<longrightarrow> tok_id t \<notin> set (computeValidMoves gs pc d))))
   \<and> (isFinished f \<and> \<not> isInHome f \<longrightarrow>
         calculateNewPosition f e = None
         \<and> (\<forall>gs tid now.
               diceValue gs = Some e \<and> find (\<lambda>x. tok_id x = tid) (tokens gs) = Some f
               \<longrightarrow> isl (moveToken gs tid now))
         \<and> (\<forall>gs pc.
               distinct (map tok_id (tokens gs)) \<and> f \<in> set (tokens gs)
               \<longrightarrow> tok_id f \<notin> set (computeValidMoves gs pc e)))"
proof (intro conjI impI)
  assume lane: "\<not> isInHome t \<and> \<not> isFinished t \<and> isInHomeStretch t
      \<and> 52 \<le> position t \<and> position t \<le> 56 \<and> 1 \<le> d \<and> d \<le> 6"
  {
    assume exact: "position t + d = 57"
    then show c: "calculateNewPosition t d = Some 57"
      using lane by (simp add: calculateNewPosition_def Let_def)
    show "\<forall>gs tid now gs'.
               diceValue gs = Some d \<and> find (\<lambda>x. tok_id x = tid) (tokens gs) = Some t
                 \<and> moveToken gs tid now = Inr gs'
               \<longrightarrow> find (\<lambda>x. tok_id x = tid) (tokens gs')
                     = Some (t\<lparr> position := 57, isInHome := False,
                                isInHomeStretch := False, isFinished := True \<rparr>)"
    proof (intro allI impI, elim conjE)
      fix gs tid now gs'
      assume dv: "diceValue gs = Some d"
        and ft: "find (\<lambda>x. tok_id x = tid) (tokens gs) = Some t"
        and mv: "moveToken gs tid now = Inr gs'"
      from mv obtain np ti where
          np: "calculateNewPosition t d = Some np"
          and ti: "findIndex (\<lambda>x. tok_id x = tid) (tokens gs) = Some ti"
          and gs': "gs' = applyMove gs t d np ti now"
        using dv ft by (elim moveToken_Inr) auto
      from np c have [simp]: "np = 57" by simp
      have "tokens gs' = (tokens gs)[ti := movedToken t 57]"
        by (simp add: gs' applyMove_tokens checkCapture_off_ring)
      moreover have "tok_id (movedToken t 57) = tid"
        using find_Some_set[OF ft] by (simp add: movedToken_def)
      ultimately have "find (\<lambda>x. tok_id x = tid) (tokens gs') = Some (movedToken t 57)"
        using find_update_first[OF ti] by simp
      then show "find (\<lambda>x. tok_id x = tid) (tokens gs')
                     = Some (t\<lparr> position := 57, isInHome := False,
                                isInHomeStretch := False, isFinished := True \<rparr>)"
        by (simp add: movedToken_def)
    qed
  }
  {
    assume over: "position t + d > 57"
    then show n: "calculateNewPosition t d = None"
      using lane by (simp add: calculateNewPosition_def Let_def)
    show "\<forall>gs tid now.
               diceValue gs = Some d \<and> find (\<lambda>x. tok_id x = tid) (tokens gs) = Some t
               \<longrightarrow> isl (moveToken gs tid now)"
      using n moveToken_fails_without_destination by blast
    show "\<forall>gs pc.
               distinct (map tok_id (tokens gs)) \<and> t \<in> set (tokens gs)
               \<longrightarrow> tok_id t \<notin> set (computeValidMoves gs pc d)"
      using n computeValidMoves_excludes by blast
  }
next
  assume fin: "isFinished f \<and> \<not> isInHome f"
  then show n: "calculateNewPosition f e = None"
    by (simp add: calculateNewPosition_def)
  show "\<forall>gs tid now.
               diceValue gs = Some e \<and> find (\<lambda>x. tok_id x = tid) (tokens gs) = Some f
               \<longrightarrow> isl (moveToken gs tid now)"
    using n moveToken_fails_without_destination by blast
  show "\<forall>gs pc.
               distinct (map tok_id (tokens gs)) \<and> f \<in> set (tokens gs)
               \<longrightarrow> tok_id f \<notin> set (computeValidMoves gs pc e)"
    using n computeValidMoves_excludes by blast
qed

text \<open>
  The red token on lane cell 55 finishes with a 2 and cannot move with a 3; a
  finished red token cannot move with a 6.
\<close>

theorem C4_home_stretch_exact_finish_witness:
  "calculateNewPosition (tokenAt ''red-0'' RED 55) 2 = Some 57
   \<and> (\<exists>gs'. moveToken laneGame ''red-0'' 7 = Inr gs'
         \<and> find (\<lambda>x. tok_id x = ''red-0'') (tokens gs') = Some (tokenAt ''red-0'' RED 57))
   \<and> calculateNewPosition (tokenAt ''red-0'' RED 55) 3 = None
   \<and> isl (moveToken (laneGame\<lparr>diceValue := Some 3\<rparr>) ''red-0'' 7)
   \<and> calculateNewPosition (tokenAt ''red-1'' RED 57) 6 = None
   \<and> isl (moveToken (laneGame\<lparr>diceValue := Some 6, validMoves := [''red-1'']\<rparr>) ''red-1'' 7)"
proof -
  let ?t = "tokenAt ''red-0'' RED 55" and ?f = "tokenAt ''red-1'' RED 57"
  have lane2: "\<not> isInHome ?t \<and> \<not> isFinished ?t \<and> isInHomeStretch ?t
      \<and> 52 \<le> position ?t \<and> position ?t \<le> 56 \<and> (1::int) \<le> 2 \<and> (2::int) \<le> 6"
    and lane3: "\<not> isInHome ?t \<and> \<not> isFinished ?t \<and> isInHomeStretch ?t
      \<and> 52 \<le> position ?t \<and> position ?t \<le> 56 \<and> (1::int) \<le> 3 \<and> (3::int) \<le> 6"
    and exact: "position ?t + 2 = 57" and over: "position ?t + 3 > 57"
    and fin: "isFinished ?f \<and> \<not> isInHome ?f"
    by (simp_all add: tokenAt_def)
  have ft: "find (\<lambda>x. tok_id x = ''red-0'') (tokens laneGame) = Some ?t"
    and ff: "find (\<lambda>x. tok_id x = ''red-1'')
               (tokens (laneGame\<lparr>diceValue := Some 6, validMoves := [''red-1'']\<rparr>)) = Some ?f"
    and ft3: "find (\<lambda>x. tok_id x = ''red-0'') (tokens (laneGame\<lparr>diceValue := Some 3\<rparr>)) = Some ?t"
    by (simp_all add: laneGame_def tokenAt_def)
  have dv: "diceValue laneGame = Some 2"
    and dv3: "diceValue (laneGame\<lparr>diceValue := Some 3\<rparr>) = Some 3"
    and dv6: "diceValue (laneGame\<lparr>diceValue := Some 6, validMoves := [''red-1'']\<rparr>) = Some 6"
    by (simp_all add: laneGame_def)
  obtain gs' where mv: "moveToken laneGame ''red-0'' 7 = Inr gs'"
    by (simp add: moveToken_def laneGame_def tokenAt_def getCurrentPlayerColor_def
          js_index_def calculateNewPosition_def)
  have a: "calculateNewPosition ?t 2 = Some 57
      \<and> find (\<lambda>x. tok_id x = ''red-0'') (tokens gs')
           = Some (?t\<lparr> position := 57, isInHome := False,
                        isInHomeStretch := False, isFinished := True \<rparr>)"
    using C4_home_stretch_exact_finish[of ?t 2 ?f 6] lane2 exact dv ft mv by blast
  have b: "calculateNewPosition ?t 3 = None
      \<and> isl (moveToken (laneGame\<lparr>diceValue := Some 3\<rparr>) ''red-0'' 7)"
    using C4_home_stretch_exact_finish[of ?t 3 ?f 6] lane3 over dv3 ft3 by blast
  have c: "calculateNewPosition ?f 6 = None
      \<and> isl (moveToken (laneGame\<lparr>diceValue := Some 6, validMoves := [''red-1'']\<rparr>) ''red-1'' 7)"
    using C4_home_stretch_exact_finish[of ?t 2 ?f 6] fin dv6 ff by blast
  have "?t\<lparr> position := 57, isInHome := False, isInHomeStretch := False, isFinished := True \<rparr>
          = tokenAt ''red-0'' RED 57"
    by (simp add: tokenAt_def)
  with a b c mv show ?thesis by simp
qed


section \<open>Capture\<close>

lemma findIndex_member:
  "x \<in> set xs \<Longrightarrow> P x \<Longrightarrow> \<exists>i. findIndex P xs = Some i"
  by (induction xs) auto

lemma distinct_ids_nth:
  assumes "distinct (map tok_id ts)" "i < length ts" "u \<in> set ts" "tok_id (ts ! i) = tok_id u"
  shows "ts ! i = u"
proof -
  from assms(3) obtain j where j: "j < length ts" "ts ! j = u"
    by (auto simp: in_set_conv_nth)
  with assms have "i = j" by (intro distinct_map_nth_eq[of tok_id ts]) auto
  with j show ?thesis by simp
qed

text \<open>The two outcomes of the capture check.\<close>

lemma checkCapture_cases:
  assumes "distinct (map tok_id ts)"
  obtains (none) "checkCapture ts t np = (ts, None)"
      "np < 0 \<or> np > 51 \<or> np \<in> SAFE_SQUARES \<or> find (capturable t np) ts = None"
    | (hit) u ci where "0 \<le> np" "np \<le> 51" "np \<notin> SAFE_SQUARES"
      "find (capturable t np) ts = Some u" "ci < length ts" "ts ! ci = u"
      "checkCapture ts t np = (ts[ci := sentHome u], Some (tok_id u))"
proof (cases "np \<ge> 0 \<and> np \<le> 51 \<and> np \<notin> SAFE_SQUARES")
  case False
  then have "checkCapture ts t np = (ts, None)" by (auto simp: checkCapture_def)
  with False none show ?thesis by force
next
  case inside: True
  show ?thesis
  proof (cases "find (capturable t np) ts")
    case None
    with inside have "checkCapture ts t np = (ts, None)" by (simp add: checkCapture_def)
    with None none show ?thesis by blast
  next
    case (Some u)
    then have u: "u \<in> set ts" by (simp add: find_Some_set)
    then obtain ci where ci: "findIndex (\<lambda>x. tok_id x = tok_id u) ts = Some ci"
      using findIndex_member[of u ts "\<lambda>x. tok_id x = tok_id u"] by auto
    from findIndex_Some[OF ci] have l: "ci < length ts" "tok_id (ts ! ci) = tok_id u" by auto
    have "ts ! ci = u" using assms l(1) u l(2) by (rule distinct_ids_nth)
    moreover have "checkCapture ts t np = (ts[ci := sentHome u], Some (tok_id u))"
      using inside Some ci by (simp add: checkCapture_def)
    ultimately show ?thesis using hit inside Some l(1) by blast
  qed
qed

text \<open>
  The shape of a successful move on a token list with distinct ids: the moved token
  is written at its own index, after the capture check.
\<close>

lemma moveToken_shape:
  assumes "moveToken gs tid now = Inr gs'" and "distinct (map tok_id (tokens gs))"
  obtains d t np ti where
    "diceValue gs = Some d" "find (\<lambda>x. tok_id x = tid) (tokens gs) = Some t"
    "Some (tok_color t) = getCurrentPlayerColor gs"
    "calculateNewPosition t d = Some np"
    "ti < length (tokens gs)" "tokens gs ! ti = t" "tok_id t = tid"
    "gs' = applyMove gs t d np ti now"
proof -
  from assms(1) obtain d t np ti where m:
      "diceValue gs = Some d" "find (\<lambda>x. tok_id x = tid) (tokens gs) = Some t"
      "Some (tok_color t) = getCurrentPlayerColor gs"
      "calculateNewPosition t d = Some np"
      "findIndex (\<lambda>x. tok_id x = tid) (tokens gs) = Some ti"
      "gs' = applyMove gs t d np ti now"
    by (rule moveToken_Inr)
  from find_Some_set[OF m(2)] have t: "t \<in> set (tokens gs)" "tok_id t = tid" by auto
  from findIndex_Some[OF m(5)] have i: "ti < length (tokens gs)" "tok_id (tokens gs ! ti) = tid"
    by auto
  have "tokens gs ! ti = t"
    using assms(2) i(1) t(1) i(2) t(2) by (intro distinct_ids_nth) auto
  with m t i that show ?thesis by blast
qed

text \<open>
  C5, as the code has it. A successful move of token \<open>t\<close> to a shared-ring cell
  \<open>np\<close> (0..51), on a token list with distinct ids. If \<open>np\<close> is not a safe cell
  and tokens of another colour stand on it on the ring (not in a lane, not finished,
  not at home), the first of them in the order of the token list, \<open>u\<close>, is sent
  home (as \<open>find\<close> returns it) and its id is the \<open>capturedTokenId\<close> of the
  appended move record; every token
  other than \<open>u\<close> and the moved one is left as it was, a second occupant too. If
  \<open>np\<close> is a safe cell, no captured id is recorded and every token other than the
  moved one is left as it was.
\<close>

theorem C5_capture_first_occupant:
  assumes mv: "moveToken gs tid now = Inr gs'"
      and dv: "diceValue gs = Some d"
      and ft: "find (\<lambda>x. tok_id x = tid) (tokens gs) = Some t"
      and np: "calculateNewPosition t d = Some np" "0 \<le> np" "np \<le> 51"
      and ids: "distinct (map tok_id (tokens gs))"
  shows "(np \<notin> SAFE_SQUARES \<longrightarrow>
           (\<forall>x \<in> set (tokens gs). capturable t np x \<longrightarrow>
              (\<exists>u. find (capturable t np) (tokens gs) = Some u \<and> capturable t np u))
           \<and> (\<forall>u. find (capturable t np) (tokens gs) = Some u \<longrightarrow>
              find (\<lambda>x. tok_id x = tok_id u) (tokens gs') = Some (sentHome u)
              \<and> capturedTokenId (last (moveHistory gs')) = Some (tok_id u)
              \<and> (\<forall>x \<in> set (tokens gs). tok_id x \<noteq> tid \<and> tok_id x \<noteq> tok_id u
                    \<longrightarrow> x \<in> set (tokens gs'))))
       \<and> (np \<in> SAFE_SQUARES \<longrightarrow>
             capturedTokenId (last (moveHistory gs')) = None
             \<and> (\<forall>x \<in> set (tokens gs). tok_id x \<noteq> tid \<longrightarrow> x \<in> set (tokens gs')))"
proof -
  have first: "\<exists>u. find (capturable t np) (tokens gs) = Some u \<and> capturable t np u"
    if "x \<in> set (tokens gs)" "capturable t np x" for x
  proof -
    from that have "find (capturable t np) (tokens gs) \<noteq> None"
      by (auto simp: find_None_set)
    then obtain u where "find (capturable t np) (tokens gs) = Some u" by auto
    with find_Some_set[OF this] show ?thesis by blast
  qed
  from mv ids obtain d' t' np' ti where m:
      "diceValue gs = Some d'" "find (\<lambda>x. tok_id x = tid) (tokens gs) = Some t'"
      "calculateNewPosition t' d' = Some np'"
      "ti < length (tokens gs)" "tokens gs ! ti = t'" "tok_id t' = tid"
      "gs' = applyMove gs t' d' np' ti now"
    by (rule moveToken_shape)
  from m(1-3) dv ft np(1) have [simp]: "d' = d" "t' = t" "np' = np" by auto
  let ?ts = "tokens gs"
  have toks: "tokens gs' = (fst (checkCapture ?ts t np))[ti := movedToken t np]"
    and hist: "capturedTokenId (last (moveHistory gs')) = snd (checkCapture ?ts t np)"
    using m(7) by (simp_all add: applyMove_tokens applyMove_history)
  show ?thesis
  proof (intro conjI impI allI)
    show "\<forall>x \<in> set (tokens gs). capturable t np x \<longrightarrow>
              (\<exists>u. find (capturable t np) (tokens gs) = Some u \<and> capturable t np u)"
      using first by blast
  next
    fix u
    assume unsafe: "np \<notin> SAFE_SQUARES" and fu: "find (capturable t np) ?ts = Some u"
    from ids obtain ci where ci: "ci < length ?ts" "?ts ! ci = u"
        and cc: "checkCapture ?ts t np = (?ts[ci := sentHome u], Some (tok_id u))"
      using fu unsafe np(2,3) by (cases rule: checkCapture_cases[of ?ts t np]) auto
    from find_Some_set[OF fu] have cu: "tok_color u \<noteq> tok_color t"
      by (auto simp: capturable_def)
    have ne: "ci \<noteq> ti" using ci(2) m(5) cu by auto
    have toks': "tokens gs' = ?ts[ci := sentHome u, ti := movedToken t np]"
      using toks cc by simp
    have idne: "tok_id u \<noteq> tid"
    proof
      assume "tok_id u = tid"
      then have "tok_id (?ts ! ci) = tok_id (?ts ! ti)" using ci(2) m(5,6) by simp
      with ids ci(1) m(4) have "ci = ti" by (intro distinct_map_nth_eq[of tok_id ?ts]) auto
      with ne show False by simp
    qed
    have d': "distinct (map tok_id (tokens gs'))"
    proof -
      have "map tok_id (tokens gs') = map tok_id ?ts"
        unfolding toks' using ci m(4,5,6)
        by (intro nth_equalityI) (auto simp: nth_list_update sentHome_def movedToken_def)
      with ids show ?thesis by simp
    qed
    have at: "ci < length (tokens gs')" "tokens gs' ! ci = sentHome u"
      using toks' ci(1) ne by simp_all
    have "find (\<lambda>x. tok_id x = tok_id u) (tokens gs') = Some (tokens gs' ! ci)"
    proof (intro find_first allI impI)
      show "ci < length (tokens gs')" by (rule at(1))
      show "tok_id (tokens gs' ! ci) = tok_id u" using at(2) by (simp add: sentHome_def)
      fix j assume j: "j < ci"
      show "tok_id (tokens gs' ! j) \<noteq> tok_id u"
      proof
        assume "tok_id (tokens gs' ! j) = tok_id u"
        then have "tok_id (tokens gs' ! j) = tok_id (tokens gs' ! ci)"
          using at(2) by (simp add: sentHome_def)
        with d' j at(1) have "j = ci"
          by (intro distinct_map_nth_eq[of tok_id "tokens gs'"]) auto
        with j show False by simp
      qed
    qed
    then show "find (\<lambda>x. tok_id x = tok_id u) (tokens gs') = Some (sentHome u)"
      using at(2) by simp
    show "capturedTokenId (last (moveHistory gs')) = Some (tok_id u)"
      using hist cc by simp
    show "\<forall>x \<in> set ?ts. tok_id x \<noteq> tid \<and> tok_id x \<noteq> tok_id u \<longrightarrow> x \<in> set (tokens gs')"
    proof (intro ballI impI)
      fix x assume x: "x \<in> set ?ts" "tok_id x \<noteq> tid \<and> tok_id x \<noteq> tok_id u"
      then obtain j where j: "j < length ?ts" "?ts ! j = x" by (auto simp: in_set_conv_nth)
      with x(2) ci(2) m(5,6) have "j \<noteq> ci" "j \<noteq> ti" by auto
      with j have "tokens gs' ! j = x" "j < length (tokens gs')" unfolding toks' by simp_all
      then show "x \<in> set (tokens gs')" by (metis nth_mem)
    qed
  next
    assume safe: "np \<in> SAFE_SQUARES"
    then have cc: "checkCapture ?ts t np = (?ts, None)" by (simp add: checkCapture_def)
    show "capturedTokenId (last (moveHistory gs')) = None" using hist cc by simp
    show "\<forall>x \<in> set ?ts. tok_id x \<noteq> tid \<longrightarrow> x \<in> set (tokens gs')"
    proof (intro ballI impI)
      fix x assume x: "x \<in> set ?ts" "tok_id x \<noteq> tid"
      then obtain j where j: "j < length ?ts" "?ts ! j = x" by (auto simp: in_set_conv_nth)
      with x(2) m(5,6) have "j \<noteq> ti" by auto
      with j have "tokens gs' ! j = x" "j < length (tokens gs')" using toks cc by simp_all
      then show "x \<in> set (tokens gs')" by (metis nth_mem)
    qed
  qed
qed

text \<open>
  Red moves from 18 to 20 and captures the first green token there; with a 3 it lands
  on the safe cell 21 and the green token there stays.
\<close>

theorem C5_capture_first_occupant_witness:
  "(\<exists>gs'. moveToken captureGame ''red-0'' 7 = Inr gs'
      \<and> find (\<lambda>x. tok_id x = ''green-0'') (tokens gs') = Some (tokenAt ''green-0'' GREEN (-1))
      \<and> capturedTokenId (last (moveHistory gs')) = Some ''green-0'')
   \<and> (\<exists>gs'. moveToken (captureGame\<lparr>diceValue := Some 3\<rparr>) ''red-0'' 7 = Inr gs'
      \<and> capturedTokenId (last (moveHistory gs')) = None
      \<and> tokenAt ''green-2'' GREEN 21 \<in> set (tokens gs'))"
proof -
  let ?t = "tokenAt ''red-0'' RED 18" and ?u = "tokenAt ''green-0'' GREEN 20"
  let ?g3 = "captureGame\<lparr>diceValue := Some 3\<rparr>"
  have ids: "distinct (map tok_id (tokens captureGame))" "distinct (map tok_id (tokens ?g3))"
    by (simp_all add: captureGame_def tokenAt_def)
  have ft: "find (\<lambda>x. tok_id x = ''red-0'') (tokens captureGame) = Some ?t"
      "find (\<lambda>x. tok_id x = ''red-0'') (tokens ?g3) = Some ?t"
    by (simp_all add: captureGame_def tokenAt_def)
  have dv: "diceValue captureGame = Some 2" "diceValue ?g3 = Some 3"
    by (simp_all add: captureGame_def)
  have np: "calculateNewPosition ?t 2 = Some 20" "calculateNewPosition ?t 3 = Some 21"
    by (simp_all add: calculateNewPosition_def tokenAt_def stepsFromTo_def)
  have sq: "20 \<notin> SAFE_SQUARES" "21 \<in> SAFE_SQUARES" by (simp_all add: SAFE_SQUARES_def)
  have fu: "find (capturable ?t 20) (tokens captureGame) = Some ?u"
    by (simp add: captureGame_def tokenAt_def capturable_def)
  have g2: "tokenAt ''green-2'' GREEN 21 \<in> set (tokens ?g3)"
      "tok_id (tokenAt ''green-2'' GREEN 21) \<noteq> ''red-0''"
    by (simp_all add: captureGame_def tokenAt_def)
  have su: "sentHome ?u = tokenAt ''green-0'' GREEN (-1)" "tok_id ?u = ''green-0''"
    by (simp_all add: sentHome_def tokenAt_def)
  obtain gs' where mv: "moveToken captureGame ''red-0'' 7 = Inr gs'"
    by (simp add: moveToken_def captureGame_def tokenAt_def getCurrentPlayerColor_def
          js_index_def calculateNewPosition_def stepsFromTo_def)
  obtain gs'' where mv3: "moveToken ?g3 ''red-0'' 7 = Inr gs''"
    by (simp add: moveToken_def captureGame_def tokenAt_def getCurrentPlayerColor_def
          js_index_def calculateNewPosition_def stepsFromTo_def)
  have "find (\<lambda>x. tok_id x = tok_id ?u) (tokens gs') = Some (sentHome ?u)
      \<and> capturedTokenId (last (moveHistory gs')) = Some (tok_id ?u)"
    using C5_capture_first_occupant[OF mv dv(1) ft(1) np(1) _ _ ids(1)] sq(1) fu by simp
  moreover have "capturedTokenId (last (moveHistory gs'')) = None
      \<and> tokenAt ''green-2'' GREEN 21 \<in> set (tokens gs'')"
    using C5_capture_first_occupant[OF mv3 dv(2) ft(2) np(2) _ _ ids(2)] sq(2) g2 by simp
  ultimately show ?thesis using mv mv3 su by auto
qed

text \<open>
  The claim as stated fails where two tokens of another colour share the cell: red
  moves from 18 to the unsafe cell 20, on which ''green-0'' and ''green-1'' both stand on
  the ring; only ''green-0'' is sent home and recorded, ''green-1'' is still on cell 20.
\<close>

theorem C5_second_occupant_counterexample:
  "tokens captureGame
     = [tokenAt ''red-0'' RED 18, tokenAt ''red-1'' RED (-1),
        tokenAt ''red-2'' RED (-1), tokenAt ''red-3'' RED (-1),
        tokenAt ''green-0'' GREEN 20, tokenAt ''green-1'' GREEN 20,
        tokenAt ''green-2'' GREEN 21, tokenAt ''green-3'' GREEN (-1)]
   \<and> calculateNewPosition (tokenAt ''red-0'' RED 18) 2 = Some 20
   \<and> 20 \<notin> SAFE_SQUARES
   \<and> capturable (tokenAt ''red-0'' RED 18) 20 (tokenAt ''green-1'' GREEN 20)
   \<and> map_sum id tokens (moveToken captureGame ''red-0'' 7)
       = Inr [tokenAt ''red-0'' RED 20, tokenAt ''red-1'' RED (-1),
              tokenAt ''red-2'' RED (-1), tokenAt ''red-3'' RED (-1),
              tokenAt ''green-0'' GREEN (-1), tokenAt ''green-1'' GREEN 20,
              tokenAt ''green-2'' GREEN 21, tokenAt ''green-3'' GREEN (-1)]
   \<and> map_sum id (map capturedTokenId \<circ> moveHistory) (moveToken captureGame ''red-0'' 7)
       = Inr [Some ''green-0'']
   \<and> \<not> isInHome (tokenAt ''green-1'' GREEN 20)"
  by (simp add: captureGame_def moveToken_def applyMove_def checkCapture_def capturable_def
        sentHome_def movedToken_def checkWinner_def passTurn_def js_index_def js_rem_def
        js_succ_rem_def truthy_def SAFE_SQUARES_def tokenAt_def getCurrentPlayerColor_def
        calculateNewPosition_def stepsFromTo_def)


section \<open>Turn continuation\<close>

lemma checkCapture_id_member:
  "snd (checkCapture ts t np) = Some i \<Longrightarrow> i \<in> tok_id ` set ts"
  by (auto simp: checkCapture_def dest: find_Some_set split: if_splits option.splits)

lemma applyMove_turn:
  "(if (dice = 6 \<or> truthy (snd (checkCapture (tokens gs) token np)))
        \<and> winner (applyMove gs token dice np ti now) = None
        \<and> \<not> (dice = 6 \<and> consecutiveSixes gs + 1 \<ge> 3)
    then currentTurnPlayerIndex (applyMove gs token dice np ti now) = currentTurnPlayerIndex gs
       \<and> consecutiveSixes (applyMove gs token dice np ti now)
           = (if dice = 6 then consecutiveSixes gs + 1 else 0)
    else currentTurnPlayerIndex (applyMove gs token dice np ti now)
           = js_succ_rem (currentTurnPlayerIndex gs) (int (length (playerColorOrder gs)))
       \<and> consecutiveSixes (applyMove gs token dice np ti now) = 0)"
  by (auto simp: applyMove_def Let_def passTurn_def split: prod.splits)

lemma next_index_differs:
  assumes "0 \<le> i" "i < n" "2 \<le> (n::int)"
  shows "(i + 1) mod n \<noteq> i"
proof (cases "i + 1 < n")
  case True
  then have "(i + 1) mod n = i + 1" using assms by (intro mod_pos_pos_trivial) linarith+
  then show ?thesis by simp
next
  case False
  with assms have "i + 1 = n" by linarith
  then have "(i + 1) mod n = 0" by simp
  with assms \<open>i + 1 = n\<close> show ?thesis by linarith
qed

text \<open>
  C6, as the code has it. After a successful move with dice value \<open>d\<close> (token ids
  not empty), the dice is cleared and rolling is allowed again, and the acting player
  keeps the turn exactly when the dice value was 6 or a capture occurred, the returned
  state has no winner, and it is not the third consecutive six: then the turn index is
  unchanged and the counter is incremented after a six, reset otherwise. In every other
  case the turn passes: the index is the next player's and the counter is 0. With at
  least two players the next index differs from the current one.
\<close>

theorem C6_turn_continuation:
  assumes "moveToken gs tid now = Inr gs'" and "diceValue gs = Some d"
      and "[] \<notin> tok_id ` set (tokens gs)"
  shows "diceValue gs' = None \<and> canRollDice gs'
     \<and> (if (d = 6 \<or> capturedTokenId (last (moveHistory gs')) \<noteq> None)
             \<and> winner gs' = None
             \<and> \<not> (d = 6 \<and> consecutiveSixes gs + 1 \<ge> 3)
         then currentTurnPlayerIndex gs' = currentTurnPlayerIndex gs
            \<and> consecutiveSixes gs' = (if d = 6 then consecutiveSixes gs + 1 else 0)
         else currentTurnPlayerIndex gs'
                = js_succ_rem (currentTurnPlayerIndex gs) (int (length (playerColorOrder gs)))
            \<and> consecutiveSixes gs' = 0)
     \<and> (\<forall>i. currentTurnPlayerIndex gs = Num i \<and> 0 \<le> i
              \<and> i < int (length (playerColorOrder gs)) \<and> 2 \<le> length (playerColorOrder gs)
           \<longrightarrow> js_succ_rem (currentTurnPlayerIndex gs) (int (length (playerColorOrder gs)))
                 = Num ((i + 1) mod int (length (playerColorOrder gs)))
               \<and> (i + 1) mod int (length (playerColorOrder gs)) \<noteq> i)"
proof -
  from assms(1) obtain d' t np ti where m:
      "diceValue gs = Some d'" "gs' = applyMove gs t d' np ti now"
    by (rule moveToken_Inr)
  with assms(2) have [simp]: "d' = d" by simp
  let ?cap = "snd (checkCapture (tokens gs) t np)"
  have hist: "capturedTokenId (last (moveHistory gs')) = ?cap"
    using m(2) by (simp add: applyMove_history)
  have "truthy ?cap \<longleftrightarrow> ?cap \<noteq> None"
  proof (cases ?cap)
    case None
    then show ?thesis by (simp add: truthy_def)
  next
    case (Some i)
    from checkCapture_id_member[OF Some] assms(3) have "i \<noteq> []" by metis
    with Some show ?thesis by (simp add: truthy_def)
  qed
  with applyMove_turn[of d gs t np ti now] hist m(2)
  have turn: "(if (d = 6 \<or> capturedTokenId (last (moveHistory gs')) \<noteq> None)
             \<and> winner gs' = None
             \<and> \<not> (d = 6 \<and> consecutiveSixes gs + 1 \<ge> 3)
         then currentTurnPlayerIndex gs' = currentTurnPlayerIndex gs
            \<and> consecutiveSixes gs' = (if d = 6 then consecutiveSixes gs + 1 else 0)
         else currentTurnPlayerIndex gs'
                = js_succ_rem (currentTurnPlayerIndex gs) (int (length (playerColorOrder gs)))
            \<and> consecutiveSixes gs' = 0)"
    by simp
  have clr: "diceValue gs' = None \<and> canRollDice gs'"
    using m(2) applyMove_cleared by simp
  have nxt: "\<forall>i. currentTurnPlayerIndex gs = Num i \<and> 0 \<le> i
              \<and> i < int (length (playerColorOrder gs)) \<and> 2 \<le> length (playerColorOrder gs)
           \<longrightarrow> js_succ_rem (currentTurnPlayerIndex gs) (int (length (playerColorOrder gs)))
                 = Num ((i + 1) mod int (length (playerColorOrder gs)))
               \<and> (i + 1) mod int (length (playerColorOrder gs)) \<noteq> i"
  proof (intro allI impI, elim conjE)
    fix i
    assume i: "currentTurnPlayerIndex gs = Num i" "0 \<le> i"
      "i < int (length (playerColorOrder gs))" "2 \<le> length (playerColorOrder gs)"
    have "js_succ_rem (Num i) (int (length (playerColorOrder gs)))
            = Num ((i + 1) mod int (length (playerColorOrder gs)))"
      using i by (intro js_succ_rem_next) linarith+
    moreover have "(i + 1) mod int (length (playerColorOrder gs)) \<noteq> i"
      using i by (intro next_index_differs) linarith+
    ultimately show "js_succ_rem (currentTurnPlayerIndex gs) (int (length (playerColorOrder gs)))
                 = Num ((i + 1) mod int (length (playerColorOrder gs)))
               \<and> (i + 1) mod int (length (playerColorOrder gs)) \<noteq> i"
      using i(1) by simp
  qed
  from clr turn nxt show ?thesis by blast
qed

text \<open>
  Red's capture with a 2 keeps the turn at index 0; red's move with a 3 to the safe
  cell 21 passes it to index 1.
\<close>

theorem C6_turn_continuation_witness:
  "(\<exists>gs'. moveToken captureGame ''red-0'' 7 = Inr gs'
      \<and> diceValue gs' = None \<and> canRollDice gs'
      \<and> currentTurnPlayerIndex gs' = Num 0 \<and> consecutiveSixes gs' = 0)
   \<and> (\<exists>gs'. moveToken (captureGame\<lparr>diceValue := Some 3\<rparr>) ''red-0'' 7 = Inr gs'
      \<and> diceValue gs' = None \<and> canRollDice gs'
      \<and> currentTurnPlayerIndex gs' = Num 1 \<and> consecutiveSixes gs' = 0)"
proof -
  let ?g3 = "captureGame\<lparr>diceValue := Some 3\<rparr>"
  have ids: "[] \<notin> tok_id ` set (tokens captureGame)" "[] \<notin> tok_id ` set (tokens ?g3)"
    by (simp_all add: captureGame_def tokenAt_def)
  have dv: "diceValue captureGame = Some 2" "diceValue ?g3 = Some 3"
    by (simp_all add: captureGame_def)
  have st: "currentTurnPlayerIndex captureGame = Num 0" "consecutiveSixes captureGame = 0"
      "currentTurnPlayerIndex ?g3 = Num 0" "int (length (playerColorOrder ?g3)) = 2"
    by (simp_all add: captureGame_def)
  obtain gs' where mv: "moveToken captureGame ''red-0'' 7 = Inr gs'"
    by (simp add: moveToken_def captureGame_def tokenAt_def getCurrentPlayerColor_def
          js_index_def calculateNewPosition_def stepsFromTo_def)
  obtain gs'' where mv3: "moveToken ?g3 ''red-0'' 7 = Inr gs''"
    by (simp add: moveToken_def captureGame_def tokenAt_def getCurrentPlayerColor_def
          js_index_def calculateNewPosition_def stepsFromTo_def)
  have "map_sum id (capturedTokenId \<circ> last \<circ> moveHistory) (moveToken captureGame ''red-0'' 7)
          = Inr (Some ''green-0'')"
    and "map_sum id winner (moveToken captureGame ''red-0'' 7) = Inr None"
    and "map_sum id (capturedTokenId \<circ> last \<circ> moveHistory) (moveToken ?g3 ''red-0'' 7)
          = Inr None"
    by (simp_all add: captureGame_def moveToken_def applyMove_def checkCapture_def
        capturable_def sentHome_def movedToken_def checkWinner_def passTurn_def js_index_def
        js_rem_def js_succ_rem_def truthy_def SAFE_SQUARES_def tokenAt_def
        getCurrentPlayerColor_def calculateNewPosition_def stepsFromTo_def)
  then have obs: "capturedTokenId (last (moveHistory gs')) = Some ''green-0''"
      "winner gs' = None" "capturedTokenId (last (moveHistory gs'')) = None"
    using mv mv3 by simp_all
  have a: "diceValue gs' = None \<and> canRollDice gs'
      \<and> currentTurnPlayerIndex gs' = Num 0 \<and> consecutiveSixes gs' = 0"
    using C6_turn_continuation[OF mv dv(1) ids(1)] obs(1,2) st(1,2) by simp
  have "js_succ_rem (Num 0) 2 = Num 1" by (simp add: js_succ_rem_def js_rem_def)
  then have b: "diceValue gs'' = None \<and> canRollDice gs''
      \<and> currentTurnPlayerIndex gs'' = Num 1 \<and> consecutiveSixes gs'' = 0"
    using C6_turn_continuation[OF mv3 dv(2) ids(2)] obs(3) st(3,4) by simp
  from a b mv mv3 show ?thesis by blast
qed

text \<open>
  The claim as stated fails once a colour has won: green moves a token out of home
  with a 6, the first six in a row and no third one, and the turn passes to index 0 all
  the same, because the returned state has a winner.
\<close>

theorem C6_six_after_win_counterexample:
  "diceValue wonGame = Some 6
   \<and> consecutiveSixes wonGame = 0
   \<and> currentTurnPlayerIndex wonGame = Num 1
   \<and> map_sum id currentTurnPlayerIndex (moveToken wonGame ''green-0'' 7) = Inr (Num 0)
   \<and> map_sum id winner (moveToken wonGame ''green-0'' 7) = Inr (Some RED)"
  by (simp add: wonGame_def moveToken_def applyMove_def checkCapture_def capturable_def
        sentHome_def movedToken_def checkWinner_def passTurn_def js_index_def js_rem_def
        js_succ_rem_def truthy_def SAFE_SQUARES_def tokenAt_def getCurrentPlayerColor_def
        calculateNewPosition_def stepsFromTo_def)


section \<open>The winner\<close>

text \<open>
  \<open>groupByColor\<close> keeps the keys distinct and collects under each colour its tokens
  in list order.
\<close>

lemma groupByColor_props:
  assumes "distinct (map fst acc)"
  shows "distinct (map fst (groupByColor ts acc))
     \<and> (\<forall>c. map_of (groupByColor ts acc) c =
           (case map_of acc c of
              Some l \<Rightarrow> Some (l @ filter (\<lambda>t. tok_color t = c) ts)
            | None \<Rightarrow> if c \<in> tok_color ` set ts
                      then Some (filter (\<lambda>t. tok_color t = c) ts) else None))"
  using assms
proof (induction ts arbitrary: acc)
  case Nil
  then show ?case by (auto split: option.splits)
next
  case (Cons t ts)
  let ?k = "tok_color t"
  let ?acc = "case map_of acc ?k of
                None \<Rightarrow> acc @ [(?k, [t])]
              | Some ct \<Rightarrow> map (\<lambda>(c, l). if c = ?k then (c, l @ [t]) else (c, l)) acc"
  have fst_upd: "map fst (map (\<lambda>(c, l). if c = ?k then (c, l @ [t]) else (c, l)) acc) = map fst acc"
    by (induction acc) auto
  have d: "distinct (map fst ?acc)"
  proof (cases "map_of acc ?k")
    case None
    then have "?k \<notin> fst ` set acc" by (simp add: map_of_eq_None_iff)
    with Cons.prems None show ?thesis by simp
  next
    case (Some ct)
    then have "?acc = map (\<lambda>(c, l). if c = ?k then (c, l @ [t]) else (c, l)) acc" by simp
    then have "map fst ?acc = map fst acc" using fst_upd by (simp only:)
    with Cons.prems show ?thesis by (simp only:)
  qed
  have m: "map_of ?acc c =
             (case map_of acc c of
                Some l \<Rightarrow> Some (if c = ?k then l @ [t] else l)
              | None \<Rightarrow> if c = ?k then Some [t] else None)" for c
  proof (cases "map_of acc ?k")
    case None
    then show ?thesis by (auto simp: map_add_def split: option.splits)
  next
    case (Some ct)
    have "map_of (map (\<lambda>(c, l). if c = ?k then (c, l @ [t]) else (c, l)) acc) c
            = map_option (\<lambda>l. if c = ?k then l @ [t] else l) (map_of acc c)"
      by (induction acc) auto
    with Some show ?thesis by (auto split: option.splits)
  qed
  from Cons.IH[OF d] have ih: "distinct (map fst (groupByColor ts ?acc))"
    "\<And>c. map_of (groupByColor ts ?acc) c =
           (case map_of ?acc c of
              Some l \<Rightarrow> Some (l @ filter (\<lambda>t. tok_color t = c) ts)
            | None \<Rightarrow> if c \<in> tok_color ` set ts
                      then Some (filter (\<lambda>t. tok_color t = c) ts) else None)"
    by blast+
  show ?case
  proof (intro conjI allI)
    show "distinct (map fst (groupByColor (t # ts) acc))" using ih(1) by simp
    fix c
    show "map_of (groupByColor (t # ts) acc) c =
           (case map_of acc c of
              Some l \<Rightarrow> Some (l @ filter (\<lambda>t. tok_color t = c) (t # ts))
            | None \<Rightarrow> if c \<in> tok_color ` set (t # ts)
                      then Some (filter (\<lambda>t. tok_color t = c) (t # ts)) else None)"
      using ih(2)[of c] m[of c] by (auto split: option.splits)
  qed
qed

lemma groupByColor_set:
  "(c, l) \<in> set (groupByColor ts [])
     \<longleftrightarrow> c \<in> tok_color ` set ts \<and> l = filter (\<lambda>t. tok_color t = c) ts"
proof -
  from groupByColor_props[of "[]" ts]
  have d: "distinct (map fst (groupByColor ts []))"
    and m: "map_of (groupByColor ts []) c =
              (if c \<in> tok_color ` set ts then Some (filter (\<lambda>t. tok_color t = c) ts) else None)"
    by simp_all
  have "(c, l) \<in> set (groupByColor ts []) \<longleftrightarrow> map_of (groupByColor ts []) c = Some l"
    using d by simp
  with m show ?thesis by auto
qed

lemma checkWinner_Some:
  assumes "checkWinner ts = Some c"
  shows "allFinished c ts"
proof -
  from assms obtain l where f: "find (\<lambda>(c, ct). list_all isFinished ct) (groupByColor ts []) = Some (c, l)"
    by (auto simp: checkWinner_def)
  from find_Some_set[OF f] have "(c, l) \<in> set (groupByColor ts [])" "list_all isFinished l"
    by auto
  then show ?thesis
    by (auto simp: groupByColor_set allFinished_def list_all_iff)
qed

lemma checkWinner_None:
  "checkWinner ts = None \<longleftrightarrow> (\<forall>c. \<not> allFinished c ts)"
proof -
  have "checkWinner ts = None
          \<longleftrightarrow> (\<forall>x \<in> set (groupByColor ts []). \<not> (case x of (c, ct) \<Rightarrow> list_all isFinished ct))"
    by (simp add: checkWinner_def find_None_set)
  also have "\<dots> \<longleftrightarrow> (\<forall>c l. (c, l) \<in> set (groupByColor ts []) \<longrightarrow> \<not> list_all isFinished l)"
    by auto
  also have "\<dots> \<longleftrightarrow> (\<forall>c. \<not> allFinished c ts)"
    by (auto simp: groupByColor_set allFinished_def list_all_iff)
  finally show ?thesis .
qed

text \<open>Two token lists that agree on the tokens of a colour agree on its completeness.\<close>

lemma allFinished_transfer:
  assumes "length xs = length ys"
      and "\<forall>j<length xs. tok_color (xs ! j) = c \<or> tok_color (ys ! j) = c \<longrightarrow> xs ! j = ys ! j"
  shows "allFinished c xs = allFinished c ys"
proof -
  have "{t \<in> set xs. tok_color t = c} = {t \<in> set ys. tok_color t = c}"
  proof (intro set_eqI iffI)
    fix t assume "t \<in> {t \<in> set xs. tok_color t = c}"
    then obtain j where "j < length xs" "xs ! j = t" "tok_color t = c"
      by (auto simp: in_set_conv_nth)
    with assms have "ys ! j = t" "j < length ys" by auto
    with \<open>tok_color t = c\<close> show "t \<in> {t \<in> set ys. tok_color t = c}" by auto
  next
    fix t assume "t \<in> {t \<in> set ys. tok_color t = c}"
    then obtain j where "j < length ys" "ys ! j = t" "tok_color t = c"
      by (auto simp: in_set_conv_nth)
    with assms have "xs ! j = t" "j < length xs" by auto
    with \<open>tok_color t = c\<close> show "t \<in> {t \<in> set xs. tok_color t = c}" by auto
  qed
  then show ?thesis unfolding allFinished_def by blast
qed

text \<open>A move completes no colour other than the moved token's.\<close>

lemma move_completes_own_color_only:
  assumes ids: "distinct (map tok_id ts)"
      and ti: "ti < length ts" "ts ! ti = t"
      and c: "c \<noteq> tok_color t"
      and fin: "allFinished c ((fst (checkCapture ts t np))[ti := movedToken t np])"
  shows "allFinished c ts"
  using ids
proof (cases rule: checkCapture_cases[of ts t np])
  case none
  have "allFinished c (ts[ti := movedToken t np]) = allFinished c ts"
    using ti c by (intro allFinished_transfer) (auto simp: nth_list_update movedToken_def)
  with fin none(1) show ?thesis by simp
next
  case (hit u ci)
  from find_Some_set[OF hit(4)] have cu: "tok_color u \<noteq> tok_color t" "\<not> isFinished u"
    by (auto simp: capturable_def)
  with hit(6) ti(2) have ne: "ci \<noteq> ti" by auto
  let ?new = "ts[ci := sentHome u, ti := movedToken t np]"
  from fin hit(7) have fin': "allFinished c ?new" by simp
  have "tok_color u \<noteq> c"
  proof
    assume "tok_color u = c"
    moreover have "sentHome u \<in> set ?new"
      using hit(5) ne ti(1) by (metis length_list_update nth_list_update_eq nth_list_update_neq nth_mem)
    ultimately have "isFinished (sentHome u)"
      using fin' by (simp add: allFinished_def sentHome_def)
    with cu(2) show False by (simp add: sentHome_def)
  qed
  then have "allFinished c ?new = allFinished c ts"
    using ti c hit(5,6)
    by (intro allFinished_transfer) (auto simp: nth_list_update movedToken_def sentHome_def)
  with fin' show ?thesis by simp
qed

text \<open>
  C7, as the code has it. A successful move of token \<open>t\<close>, whose colour is the
  active player's, from a state in which no colour is complete yet, on a token list with
  distinct ids: if the move leaves every token of that colour finished, the returned
  winner is that colour; the returned winner is never another colour; and (from any
  state) the returned winner is null exactly when no colour is complete in the returned
  token list, that is, while every colour has an unfinished token.
\<close>

theorem C7_winner_is_acting_color:
  assumes mv: "moveToken gs tid now = Inr gs'"
      and ft: "find (\<lambda>x. tok_id x = tid) (tokens gs) = Some t"
      and ids: "distinct (map tok_id (tokens gs))"
  shows "getCurrentPlayerColor gs = Some (tok_color t)
     \<and> (winner gs' = None \<longleftrightarrow> (\<forall>c. \<not> allFinished c (tokens gs')))
     \<and> ((\<forall>c. \<not> allFinished c (tokens gs)) \<longrightarrow>
          (allFinished (tok_color t) (tokens gs') \<longrightarrow> winner gs' = Some (tok_color t))
          \<and> (winner gs' = None \<or> winner gs' = Some (tok_color t)))"
proof -
  from mv ids obtain d t' np ti where m:
      "find (\<lambda>x. tok_id x = tid) (tokens gs) = Some t'"
      "Some (tok_color t') = getCurrentPlayerColor gs"
      "ti < length (tokens gs)" "tokens gs ! ti = t'"
      "gs' = applyMove gs t' d np ti now"
    by (rule moveToken_shape)
  with ft have [simp]: "t' = t" by simp
  let ?new = "(fst (checkCapture (tokens gs) t np))[ti := movedToken t np]"
  have toks: "tokens gs' = ?new" and win: "winner gs' = checkWinner ?new"
    using m(5) by (simp_all add: applyMove_tokens applyMove_winner)
  have none_iff: "winner gs' = None \<longleftrightarrow> (\<forall>c. \<not> allFinished c (tokens gs'))"
    using win toks checkWinner_None by simp
  have own: "winner gs' = None \<or> winner gs' = Some (tok_color t)"
    if nowin: "\<forall>c. \<not> allFinished c (tokens gs)"
  proof (cases "winner gs'")
    case None
    then show ?thesis by simp
  next
    case (Some c)
    then have fin: "allFinished c ?new" using win checkWinner_Some by simp
    have "c = tok_color t"
    proof (rule ccontr)
      assume "c \<noteq> tok_color t"
      with ids m(3,4) fin have "allFinished c (tokens gs)"
        by (intro move_completes_own_color_only[of "tokens gs" ti t c np]) simp_all
      with nowin show False by simp
    qed
    with Some show ?thesis by simp
  qed
  have completes: "winner gs' = Some (tok_color t)"
    if nowin: "\<forall>c. \<not> allFinished c (tokens gs)"
      and fin: "allFinished (tok_color t) (tokens gs')"
  proof -
    from fin none_iff have "winner gs' \<noteq> None" by blast
    with own[OF nowin] show ?thesis by simp
  qed
  from m(2) none_iff own completes show ?thesis by auto
qed

text \<open>
  Red's token on lane cell 55 finishes with a 2; red's other tokens are finished already,
  no colour was complete before, and the returned winner is red.
\<close>

theorem C7_winner_is_acting_color_witness:
  "\<exists>gs'. moveToken laneGame ''red-0'' 7 = Inr gs' \<and> winner gs' = Some RED
        \<and> getCurrentPlayerColor laneGame = Some RED"
proof -
  let ?t = "tokenAt ''red-0'' RED 55"
  have ids: "distinct (map tok_id (tokens laneGame))"
    by (simp add: laneGame_def tokenAt_def)
  have ft: "find (\<lambda>x. tok_id x = ''red-0'') (tokens laneGame) = Some ?t"
    by (simp add: laneGame_def tokenAt_def)
  have nowin: "\<forall>c. \<not> allFinished c (tokens laneGame)"
    by (auto simp: allFinished_def laneGame_def tokenAt_def)
  obtain gs' where mv: "moveToken laneGame ''red-0'' 7 = Inr gs'"
    by (simp add: moveToken_def laneGame_def tokenAt_def getCurrentPlayerColor_def
          js_index_def calculateNewPosition_def)
  have "map_sum id tokens (moveToken laneGame ''red-0'' 7)
          = Inr [tokenAt ''red-0'' RED 57, tokenAt ''red-1'' RED 57,
                 tokenAt ''red-2'' RED 57, tokenAt ''red-3'' RED 57,
                 tokenAt ''green-0'' GREEN 10, tokenAt ''green-1'' GREEN (-1),
                 tokenAt ''green-2'' GREEN (-1), tokenAt ''green-3'' GREEN (-1)]"
    by (simp add: laneGame_def moveToken_def applyMove_def checkCapture_def
        capturable_def sentHome_def movedToken_def checkWinner_def passTurn_def js_index_def
        js_rem_def js_succ_rem_def truthy_def SAFE_SQUARES_def tokenAt_def
        getCurrentPlayerColor_def calculateNewPosition_def stepsFromTo_def)
  with mv have "tokens gs'
      = [tokenAt ''red-0'' RED 57, tokenAt ''red-1'' RED 57,
         tokenAt ''red-2'' RED 57, tokenAt ''red-3'' RED 57,
         tokenAt ''green-0'' GREEN 10, tokenAt ''green-1'' GREEN (-1),
         tokenAt ''green-2'' GREEN (-1), tokenAt ''green-3'' GREEN (-1)]"
    by simp
  then have fin: "allFinished (tok_color ?t) (tokens gs')"
    by (simp add: allFinished_def tokenAt_def)
  have c: "tok_color ?t = RED" by (simp add: tokenAt_def)
  from C7_winner_is_acting_color[OF mv ft ids] nowin fin c
  have "winner gs' = Some RED \<and> getCurrentPlayerColor laneGame = Some RED" by simp
  with mv show ?thesis by blast
qed

text \<open>
  The claim as stated fails once a colour has won: red is complete, green moves its
  last unfinished token from lane cell 55 to 57, all four green tokens are finished, and
  the returned winner is red, a colour other than the acting player's.
\<close>

theorem C7_second_finisher_counterexample:
  "getCurrentPlayerColor secondFinish = Some GREEN
   \<and> map_sum id tokens (moveToken secondFinish ''green-3'' 7)
       = Inr [tokenAt ''red-0'' RED 57, tokenAt ''red-1'' RED 57,
              tokenAt ''red-2'' RED 57, tokenAt ''red-3'' RED 57,
              tokenAt ''green-0'' GREEN 57, tokenAt ''green-1'' GREEN 57,
              tokenAt ''green-2'' GREEN 57, tokenAt ''green-3'' GREEN 57]
   \<and> isFinished (tokenAt ''green-3'' GREEN 57)
   \<and> map_sum id winner (moveToken secondFinish ''green-3'' 7) = Inr (Some RED)"
  by (simp add: secondFinish_def moveToken_def applyMove_def checkCapture_def capturable_def
        sentHome_def movedToken_def checkWinner_def passTurn_def js_index_def js_rem_def
        js_succ_rem_def truthy_def SAFE_SQUARES_def tokenAt_def getCurrentPlayerColor_def
        calculateNewPosition_def stepsFromTo_def)



section \<open>When moveToken fails\<close>

lemma moveToken_result:
  "moveToken gs tid now =
     (case diceValue gs of
        None \<Rightarrow> Inl (BadRequestException ''Dice must be rolled first'')
      | Some d \<Rightarrow>
     (case find (\<lambda>t. tok_id t = tid) (tokens gs) of
        None \<Rightarrow> Inl (BadRequestException ''Token not found'')
      | Some t \<Rightarrow>
          if Some (tok_color t) \<noteq> getCurrentPlayerColor gs
            then Inl (BadRequestException ''Can only move your own tokens'')
          else if tid \<notin> set (validMoves gs)
            then Inl (BadRequestException ''This token is not a valid move'')
          else (case calculateNewPosition t d of
                  None \<Rightarrow> Inl (BadRequestException ''Invalid move'')
                | Some np \<Rightarrow>
                    Inr (applyMove gs t d np
                           (the (findIndex (\<lambda>t. tok_id t = tid) (tokens gs))) now))))"
proof (cases "find (\<lambda>t. tok_id t = tid) (tokens gs)")
  case None
  then show ?thesis by (simp add: moveToken_def split: option.splits)
next
  case (Some t)
  from find_findIndex[OF Some] obtain i
    where "findIndex (\<lambda>t. tok_id t = tid) (tokens gs) = Some i" by blast
  with Some show ?thesis by (simp add: moveToken_def split: option.splits)
qed

text \<open>In a state returned by \<open>rollDice\<close>, a listed token has a destination.\<close>

lemma rollDice_validMoves_sound:
  assumes r: "rollDice gs0 rnd = Inr (d0, gs)"
      and ids: "distinct (map tok_id (tokens gs0))"
      and dv: "diceValue gs = Some d"
      and ft: "find (\<lambda>t. tok_id t = tid) (tokens gs) = Some t"
      and vm: "tid \<in> set (validMoves gs)"
  shows "calculateNewPosition t d \<noteq> None"
proof -
  let ?s = "gs0\<lparr> diceValue := Some (drawDice gs0 rnd), canRollDice := False, validMoves := [] \<rparr>"
  let ?vm = "computeValidMoves ?s (getCurrentPlayerColor gs0) (drawDice gs0 rnd)"
  from r have can: "canRollDice gs0" by (auto simp: rollDice_def split: if_splits)
  have "?vm \<noteq> []"
  proof
    assume "?vm = []"
    with r can have "gs = snd (passTurn ?s (drawDice gs0 rnd))"
      by (auto simp: rollDice_def Let_def)
    with dv show False by (simp add: passTurn_def Let_def)
  qed
  with r can have gs: "gs = ?s\<lparr> validMoves := ?vm \<rparr>"
    by (auto simp: rollDice_def Let_def)
  then have d: "d = drawDice gs0 rnd" and toks: "tokens gs = tokens gs0"
    and v: "validMoves gs = ?vm"
    using dv by simp_all
  from vm v obtain u where u: "u \<in> set (tokens gs0)" "tok_id u = tid"
      "calculateNewPosition u (drawDice gs0 rnd) \<noteq> None"
    by (auto simp: computeValidMoves_def)
  from find_Some_set[OF ft] toks have t: "t \<in> set (tokens gs0)" "tok_id t = tid" by auto
  from ids u(1) t(1) have "u = t" by (rule distinct_ids_eq) (simp add: u(2) t(2))
  with u(3) d show ?thesis by simp
qed

text \<open>
  What \<open>moveToken\<close> checks, in every state: its four guards on the dice, the token, the
  colour and \<open>validMoves\<close>, and a fifth one on the destination.
\<close>

lemma moveToken_fails_iff:
  "isl (moveToken gs tid now) \<longleftrightarrow>
       diceValue gs = None
     \<or> find (\<lambda>t. tok_id t = tid) (tokens gs) = None
     \<or> (\<exists>t. find (\<lambda>t. tok_id t = tid) (tokens gs) = Some t
            \<and> Some (tok_color t) \<noteq> getCurrentPlayerColor gs)
     \<or> tid \<notin> set (validMoves gs)
     \<or> (\<exists>d t. diceValue gs = Some d \<and> find (\<lambda>t. tok_id t = tid) (tokens gs) = Some t
            \<and> calculateNewPosition t d = None)"
  unfolding moveToken_result by (auto split: option.splits)

lemma moveToken_fails_BadRequest:
  "isl (moveToken gs tid now) \<Longrightarrow> \<exists>msg. moveToken gs tid now = Inl (BadRequestException msg)"
  unfolding moveToken_result by (auto split: option.splits)

text \<open>
  In every state of a game that was started with players of distinct colours, the token
  ids are distinct and every token that \<open>validMoves\<close> lists has a destination for the
  dice value.
\<close>

lemma playGame_validMoves_sound:
  assumes "distinct (map player_color ps)"
  shows "distinct (map tok_id (tokens (playGame ps acts)))
       \<and> (\<forall>tid d t. tid \<in> set (validMoves (playGame ps acts))
                    \<and> diceValue (playGame ps acts) = Some d
                    \<and> find (\<lambda>t. tok_id t = tid) (tokens (playGame ps acts)) = Some t
               \<longrightarrow> calculateNewPosition t d \<noteq> None)"
proof (induction acts rule: rev_induct)
  case Nil
  have "validMoves (initializeGame ps) = []" by (simp add: initializeGame_def)
  then show ?case
    using initializeGame_ids_distinct[OF assms] by (simp add: playGame_def)
next
  case (snoc a acts)
  define gs where "gs = playGame ps acts"
  have step: "playGame ps (acts @ [a]) = playStep gs a"
    by (simp add: playGame_def gs_def)
  have ids: "distinct (map tok_id (tokens gs))" using snoc by (simp add: gs_def)
  have sound: "calculateNewPosition t d \<noteq> None"
    if "tid \<in> set (validMoves gs)" "diceValue gs = Some d"
       "find (\<lambda>t. tok_id t = tid) (tokens gs) = Some t" for tid d t
    using snoc that unfolding gs_def by blast
  show ?case
  proof (cases a)
    case (RollDice rnd)
    show ?thesis
    proof (cases "rollDice gs rnd")
      case (Inl e)
      then have "playStep gs a = gs" using RollDice by simp
      then show ?thesis unfolding step using ids sound by auto
    next
      case (Inr r)
      obtain d0 gs' where r: "r = (d0, gs')" by (cases r)
      have p: "playStep gs a = gs'" using RollDice Inr r by simp
      have "tokens gs' = tokens gs" using Inr r by (intro rollDice_tokens) simp
      then have "distinct (map tok_id (tokens gs'))" using ids by simp
      moreover have "calculateNewPosition t d \<noteq> None"
        if "tid \<in> set (validMoves gs')" "diceValue gs' = Some d"
           "find (\<lambda>t. tok_id t = tid) (tokens gs') = Some t" for tid d t
        using rollDice_validMoves_sound[OF Inr[unfolded r] ids that(2,3,1)] .
      ultimately show ?thesis unfolding step p by blast
    qed
  next
    case (MoveToken tid now)
    show ?thesis
    proof (cases "moveToken gs tid now")
      case (Inl e)
      then have "playStep gs a = gs" using MoveToken by simp
      then show ?thesis unfolding step using ids sound by auto
    next
      case (Inr gs')
      have p: "playStep gs a = gs'" using MoveToken Inr by simp
      have "distinct (map tok_id (tokens gs'))" using moveToken_ids[OF Inr] ids by simp
      moreover have "validMoves gs' = []"
        using Inr applyMove_cleared by (elim moveToken_Inr) simp
      ultimately show ?thesis unfolding step p by simp
    qed
  qed
qed

text \<open>The definitions that evaluate a played game.\<close>

lemmas play_eval = playGame_def initializeGame_def newToken_def ann_def bob_def
        rollDice_def drawDice_def roundHalfEven_def bitLength_eval Let_def
        computeValidMoves_def getCurrentPlayerColor_def js_index_def calculateNewPosition_def
        stepsFromTo_def passTurn_def js_rem_def js_succ_rem_def
        moveToken_def applyMove_def checkCapture_def
        capturable_def sentHome_def movedToken_def checkWinner_def truthy_def SAFE_SQUARES_def
        digits_def

text \<open>
  C8. In every state of a game that was started with players of distinct colours (as
  the players of a room are) and played by rolls and moves: \<open>moveToken\<close> fails exactly
  when the dice is null, or no token has the given id, or the token's colour is not the
  active player's colour, or the id is not in \<open>validMoves\<close>. Every failure is a
  BadRequestException and leaves the state of the game as it was; otherwise
  \<open>moveToken\<close> returns a state, which becomes the state of the game.
\<close>

theorem C8_moveToken_failure:
  assumes "distinct (map player_color ps)" and "gs = playGame ps acts"
  shows "(isl (moveToken gs tid now) \<longleftrightarrow>
             diceValue gs = None
           \<or> find (\<lambda>t. tok_id t = tid) (tokens gs) = None
           \<or> (\<exists>t. find (\<lambda>t. tok_id t = tid) (tokens gs) = Some t
                  \<and> Some (tok_color t) \<noteq> getCurrentPlayerColor gs)
           \<or> tid \<notin> set (validMoves gs))
       \<and> (isl (moveToken gs tid now)
            \<longrightarrow> (\<exists>msg. moveToken gs tid now = Inl (BadRequestException msg))
                \<and> playGame ps (acts @ [MoveToken tid now]) = gs)
       \<and> (\<not> isl (moveToken gs tid now)
            \<longrightarrow> (\<exists>gs'. moveToken gs tid now = Inr gs'
                      \<and> playGame ps (acts @ [MoveToken tid now]) = gs'))"
proof -
  have "tid \<notin> set (validMoves gs)"
    if "diceValue gs = Some d" "find (\<lambda>t. tok_id t = tid) (tokens gs) = Some t"
       "calculateNewPosition t d = None" for d t
    using playGame_validMoves_sound[OF assms(1), of acts] that unfolding assms(2) by blast
  then have four: "isl (moveToken gs tid now) \<longleftrightarrow>
             diceValue gs = None
           \<or> find (\<lambda>t. tok_id t = tid) (tokens gs) = None
           \<or> (\<exists>t. find (\<lambda>t. tok_id t = tid) (tokens gs) = Some t
                  \<and> Some (tok_color t) \<noteq> getCurrentPlayerColor gs)
           \<or> tid \<notin> set (validMoves gs)"
    unfolding moveToken_fails_iff[of gs tid now] by blast
  have step: "playGame ps (acts @ [MoveToken tid now]) = playStep gs (MoveToken tid now)"
    by (simp add: playGame_def assms(2))
  have bad: "isl (moveToken gs tid now)
            \<longrightarrow> (\<exists>msg. moveToken gs tid now = Inl (BadRequestException msg))
                \<and> playGame ps (acts @ [MoveToken tid now]) = gs"
    using moveToken_fails_BadRequest[of gs tid now] unfolding step by auto
  have ok: "\<not> isl (moveToken gs tid now)
            \<longrightarrow> (\<exists>gs'. moveToken gs tid now = Inr gs'
                      \<and> playGame ps (acts @ [MoveToken tid now]) = gs')"
    unfolding step by (cases "moveToken gs tid now") auto
  from four bad ok show ?thesis by blast
qed

text \<open>
  Ann (red) and Bob (green) play. Before the first roll a move fails, the dice being
  null. After Ann's roll of a 6, a move of the unknown ''red-9'' and a move of Bob's
  ''green-0'' fail, and the move of ''red-0'' succeeds. After that move and a roll of
  a 1, the move of ''red-1'', which is at home and not listed, fails and leaves the
  state of the game as it was.
\<close>

theorem C8_moveToken_failure_witness:
  "isl (moveToken (playGame [ann, bob] []) ''red-0'' 7)
   \<and> isl (moveToken (playGame [ann, bob] [RollDice (Draw 7 3)]) ''red-9'' 7)
   \<and> isl (moveToken (playGame [ann, bob] [RollDice (Draw 7 3)]) ''green-0'' 7)
   \<and> (\<exists>gs'. moveToken (playGame [ann, bob] [RollDice (Draw 7 3)]) ''red-0'' 7 = Inr gs')
   \<and> isl (moveToken (playGame [ann, bob]
                        [RollDice (Draw 7 3), MoveToken ''red-0'' 7, RollDice (Draw 0 1)])
             ''red-1'' 8)
   \<and> playGame [ann, bob]
        [RollDice (Draw 7 3), MoveToken ''red-0'' 7, RollDice (Draw 0 1), MoveToken ''red-1'' 8]
       = playGame [ann, bob] [RollDice (Draw 7 3), MoveToken ''red-0'' 7, RollDice (Draw 0 1)]"
proof -
  define g0 where "g0 = playGame [ann, bob] []"
  define g1 where "g1 = playGame [ann, bob] [RollDice (Draw 7 3)]"
  define g3 where "g3 = playGame [ann, bob]
                          [RollDice (Draw 7 3), MoveToken ''red-0'' 7, RollDice (Draw 0 1)]"
  have dc: "distinct (map player_color [ann, bob])" by (simp add: ann_def bob_def)
  have a: "diceValue g0 = None" unfolding g0_def by (simp add: play_eval)
  have b: "find (\<lambda>t. tok_id t = ''red-9'') (tokens g1) = None"
    unfolding g1_def by (simp add: play_eval)
  have c: "\<exists>t. find (\<lambda>t. tok_id t = ''green-0'') (tokens g1) = Some t
               \<and> Some (tok_color t) \<noteq> getCurrentPlayerColor g1"
    unfolding g1_def by (simp add: play_eval)
  have d: "\<not> (diceValue g1 = None
           \<or> find (\<lambda>t. tok_id t = ''red-0'') (tokens g1) = None
           \<or> (\<exists>t. find (\<lambda>t. tok_id t = ''red-0'') (tokens g1) = Some t
                  \<and> Some (tok_color t) \<noteq> getCurrentPlayerColor g1)
           \<or> ''red-0'' \<notin> set (validMoves g1))"
    unfolding g1_def by (simp add: play_eval)
  have e: "''red-1'' \<notin> set (validMoves g3)"
    unfolding g3_def by (simp add: play_eval)
  have 1: "isl (moveToken g0 ''red-0'' 7)"
    using C8_moveToken_failure[OF dc g0_def, of "''red-0''" 7] a by blast
  have 2: "isl (moveToken g1 ''red-9'' 7)"
    using C8_moveToken_failure[OF dc g1_def, of "''red-9''" 7] b by blast
  have 3: "isl (moveToken g1 ''green-0'' 7)"
    using C8_moveToken_failure[OF dc g1_def, of "''green-0''" 7] c by blast
  have 4: "\<exists>gs'. moveToken g1 ''red-0'' 7 = Inr gs'"
    using C8_moveToken_failure[OF dc g1_def, of "''red-0''" 7] d by blast
  have 5: "isl (moveToken g3 ''red-1'' 8)
      \<and> playGame [ann, bob]
           ([RollDice (Draw 7 3), MoveToken ''red-0'' 7, RollDice (Draw 0 1)]
              @ [MoveToken ''red-1'' 8]) = g3"
    using C8_moveToken_failure[OF dc g3_def, of "''red-1''" 8] e by blast
  from 1 2 3 4 5 show ?thesis unfolding g0_def g1_def g3_def by simp
qed

section \<open>Starting a game\<close>

lemma initializeGame_colors:
  "map tok_color (tokens (initializeGame ps)) = concat (map (\<lambda>p. replicate 4 (player_color p)) ps)"
  by (induction ps) (simp_all add: initializeGame_def newToken_def numeral_eq_Suc)

lemma initializeGame_length:
  "length (tokens (initializeGame ps)) = 4 * length ps"
  by (induction ps) (simp_all add: initializeGame_def)

lemma initializeGame_home:
  "t \<in> set (tokens (initializeGame ps))
     \<Longrightarrow> isInHome t \<and> position t = -1 \<and> \<not> isInHomeStretch t \<and> \<not> isFinished t"
  by (auto simp: initializeGame_def newToken_def)

lemma initializeGame_fields:
  "currentTurnPlayerIndex (initializeGame ps) = Num 0 \<and> diceValue (initializeGame ps) = None
   \<and> canRollDice (initializeGame ps) \<and> consecutiveSixes (initializeGame ps) = 0
   \<and> moveHistory (initializeGame ps) = [] \<and> winner (initializeGame ps) = None"
  by (simp add: initializeGame_def)

text \<open>
  C9. The calling session is bound to a room and has a player in it. If that player is
  not the admin, or the room has fewer than 2 players, or some non-admin player is not
  ready, \<open>startGame\<close> fails with a BadRequestException and returns the service state
  unchanged, so a room in Waiting status with no GameState is left so. In every other
  case it succeeds. When it succeeds, the room stored under the code is the returned
  one, its status is Playing, and its GameState has 4 tokens per player in player order,
  each of the player's colour and at home (position -1), turn index 0, dice null, rolling
  allowed, consecutive-six counter 0, empty history and winner null.
\<close>

theorem C9_startGame:
  assumes "playerToRoom svc sid = Some rc" and "rooms svc rc = Some room"
      and "find (\<lambda>p. sessionId p = sid) (players room) = Some player"
  shows "(\<not> isAdmin player \<or> length (players room) < 2
            \<or> (\<exists>p \<in> set (players room). \<not> isAdmin p \<and> \<not> isReady p)
          \<longrightarrow> (\<exists>msg. startGame svc sid now = (Inl (BadRequestException msg), svc))
              \<and> (status room = WAITING \<and> gameState room = None
                   \<longrightarrow> (\<exists>r. rooms (snd (startGame svc sid now)) rc = Some r
                          \<and> status r = WAITING \<and> gameState r = None)))
     \<and> (\<not> (\<not> isAdmin player \<or> length (players room) < 2
            \<or> (\<exists>p \<in> set (players room). \<not> isAdmin p \<and> \<not> isReady p))
          \<longrightarrow> (\<exists>room'. fst (startGame svc sid now) = Inr room'))
     \<and> (\<forall>room'. fst (startGame svc sid now) = Inr room' \<longrightarrow>
           rooms (snd (startGame svc sid now)) rc = Some room'
           \<and> status room' = PLAYING
           \<and> players room' = players room
           \<and> (\<exists>gs. gameState room' = Some gs
                \<and> length (tokens gs) = 4 * length (players room)
                \<and> map tok_color (tokens gs)
                    = concat (map (\<lambda>p. replicate 4 (player_color p)) (players room))
                \<and> (\<forall>t \<in> set (tokens gs). isInHome t \<and> position t = -1
                                          \<and> \<not> isInHomeStretch t \<and> \<not> isFinished t)
                \<and> currentTurnPlayerIndex gs = Num 0
                \<and> diceValue gs = None
                \<and> canRollDice gs
                \<and> consecutiveSixes gs = 0
                \<and> moveHistory gs = []
                \<and> winner gs = None))"
proof -
  let ?bad = "\<not> isAdmin player \<or> length (players room) < 2
            \<or> (\<exists>p \<in> set (players room). \<not> isAdmin p \<and> \<not> isReady p)"
  have ready: "list_all (\<lambda>p. isReady p \<or> isAdmin p) (players room)
                 \<longleftrightarrow> \<not> (\<exists>p \<in> set (players room). \<not> isAdmin p \<and> \<not> isReady p)"
    by (auto simp: list_all_iff)
  have fail: "\<exists>msg. startGame svc sid now = (Inl (BadRequestException msg), svc)" if ?bad
    using that assms ready by (auto simp: startGame_def)
  have ok: "startGame svc sid now =
      (Inr (room\<lparr> status := PLAYING, lastActivity := now,
                  gameState := Some (initializeGame (players room)) \<rparr>),
       svc\<lparr> rooms := (rooms svc)(rc \<mapsto> room\<lparr> status := PLAYING, lastActivity := now,
                  gameState := Some (initializeGame (players room)) \<rparr>) \<rparr>)" if "\<not> ?bad"
    using that assms ready by (simp add: startGame_def Let_def)
  have part1: "?bad \<longrightarrow> (\<exists>msg. startGame svc sid now = (Inl (BadRequestException msg), svc))
              \<and> (status room = WAITING \<and> gameState room = None
                   \<longrightarrow> (\<exists>r. rooms (snd (startGame svc sid now)) rc = Some r
                          \<and> status r = WAITING \<and> gameState r = None))"
    using fail assms(2) by fastforce
  have part2: "\<not> ?bad \<longrightarrow> (\<exists>room'. fst (startGame svc sid now) = Inr room')"
    using ok by simp
  have part3: "rooms (snd (startGame svc sid now)) rc = Some room'
           \<and> status room' = PLAYING
           \<and> players room' = players room
           \<and> (\<exists>gs. gameState room' = Some gs
                \<and> length (tokens gs) = 4 * length (players room)
                \<and> map tok_color (tokens gs)
                    = concat (map (\<lambda>p. replicate 4 (player_color p)) (players room))
                \<and> (\<forall>t \<in> set (tokens gs). isInHome t \<and> position t = -1
                                          \<and> \<not> isInHomeStretch t \<and> \<not> isFinished t)
                \<and> currentTurnPlayerIndex gs = Num 0
                \<and> diceValue gs = None
                \<and> canRollDice gs
                \<and> consecutiveSixes gs = 0
                \<and> moveHistory gs = []
                \<and> winner gs = None)"
    if s: "fst (startGame svc sid now) = Inr room'" for room'
  proof -
    have "\<not> ?bad"
    proof
      assume ?bad
      from fail[OF this] s show False by auto
    qed
    from ok[OF this] s
    have r: "room' = room\<lparr> status := PLAYING, lastActivity := now,
                  gameState := Some (initializeGame (players room)) \<rparr>"
      and st: "snd (startGame svc sid now) = svc\<lparr> rooms := (rooms svc)(rc \<mapsto> room') \<rparr>"
      by simp_all
    show ?thesis
      using initializeGame_fields[of "players room"] initializeGame_home[of _ "players room"]
      by (simp add: r st initializeGame_length initializeGame_colors)
  qed
  from part1 part2 part3 show ?thesis by blast
qed

text \<open>
  In the lobby with Ann (admin) and Bob (ready): Bob cannot start the game and the
  service state stays as it was; Ann can, and the room is Playing with 8 tokens.
\<close>

theorem C9_startGame_witness:
  "(\<exists>msg. startGame lobby ''s2'' 9 = (Inl (BadRequestException msg), lobby))
   \<and> (\<exists>r. rooms (snd (startGame lobby ''s2'' 9)) ''ABCD-1234'' = Some r
          \<and> status r = WAITING \<and> gameState r = None)
   \<and> (\<exists>room' gs. fst (startGame lobby ''s1'' 9) = Inr room'
          \<and> rooms (snd (startGame lobby ''s1'' 9)) ''ABCD-1234'' = Some room'
          \<and> status room' = PLAYING \<and> gameState room' = Some gs
          \<and> length (tokens gs) = 8 \<and> currentTurnPlayerIndex gs = Num 0
          \<and> map tok_color (tokens gs) = [RED, RED, RED, RED, GREEN, GREEN, GREEN, GREEN])"
proof -
  have b: "playerToRoom lobby ''s2'' = Some ''ABCD-1234''"
      "playerToRoom lobby ''s1'' = Some ''ABCD-1234''"
      "rooms lobby ''ABCD-1234'' = Some lobbyRoom"
    by (simp_all add: lobby_def)
  have f: "find (\<lambda>p. sessionId p = ''s2'') (players lobbyRoom) = Some bob"
      "find (\<lambda>p. sessionId p = ''s1'') (players lobbyRoom) = Some ann"
    by (simp_all add: lobbyRoom_def ann_def bob_def)
  have bad: "\<not> isAdmin bob" "status lobbyRoom = WAITING \<and> gameState lobbyRoom = None"
    by (simp_all add: bob_def lobbyRoom_def)
  have good: "\<not> (\<not> isAdmin ann \<or> length (players lobbyRoom) < 2
            \<or> (\<exists>p \<in> set (players lobbyRoom). \<not> isAdmin p \<and> \<not> isReady p))"
    by (simp add: lobbyRoom_def ann_def bob_def)
  have len: "length (players lobbyRoom) = 2"
      "concat (map (\<lambda>p. replicate 4 (player_color p)) (players lobbyRoom))
         = [RED, RED, RED, RED, GREEN, GREEN, GREEN, GREEN]"
    by (simp_all add: lobbyRoom_def ann_def bob_def numeral_eq_Suc)
  note bobs = C9_startGame[OF b(1) b(3) f(1), of 9]
  note anns = C9_startGame[OF b(2) b(3) f(2), of 9]
  from bobs bad have 1: "(\<exists>msg. startGame lobby ''s2'' 9 = (Inl (BadRequestException msg), lobby))
      \<and> (\<exists>r. rooms (snd (startGame lobby ''s2'' 9)) ''ABCD-1234'' = Some r
             \<and> status r = WAITING \<and> gameState r = None)"
    by blast
  from anns good obtain room' where r: "fst (startGame lobby ''s1'' 9) = Inr room'"
    by blast
  with anns have "rooms (snd (startGame lobby ''s1'' 9)) ''ABCD-1234'' = Some room'
      \<and> status room' = PLAYING
      \<and> (\<exists>gs. gameState room' = Some gs
            \<and> length (tokens gs) = 4 * length (players lobbyRoom)
            \<and> map tok_color (tokens gs)
                = concat (map (\<lambda>p. replicate 4 (player_color p)) (players lobbyRoom))
            \<and> currentTurnPlayerIndex gs = Num 0)"
    by blast
  with r len have 2: "\<exists>room' gs. fst (startGame lobby ''s1'' 9) = Inr room'
          \<and> rooms (snd (startGame lobby ''s1'' 9)) ''ABCD-1234'' = Some room'
          \<and> status room' = PLAYING \<and> gameState room' = Some gs
          \<and> length (tokens gs) = 8 \<and> currentTurnPlayerIndex gs = Num 0
          \<and> map tok_color (tokens gs) = [RED, RED, RED, RED, GREEN, GREEN, GREEN, GREEN]"
    by auto
  from 1 2 show ?thesis by blast
qed


section \<open>The room directory keeps colours distinct and sessions single\<close>

lemma generateRoomCode_free:
  "generateRoomCode rs draws = Some c \<Longrightarrow> rs c = None"
  by (induction draws) (auto split: if_splits)

lemma directoryInv_empty: "directoryInv emptyService"
  by (simp add: directoryInv_def emptyService_def)

lemma createRoom_inv:
  assumes "directoryInv svc"
      and "createRoom svc playerName c maxP sid draws playerId roomId now = Some (res, svc')"
  shows "directoryInv svc'"
proof (cases "playerToRoom svc sid \<noteq> None")
  case True
  with assms show ?thesis by (simp add: createRoom_def)
next
  case False
  with assms(2) obtain rc where g: "generateRoomCode (rooms svc) draws = Some rc"
    by (auto simp: createRoom_def split: option.splits)
  from generateRoomCode_free[OF g] have free: "rooms svc rc = None" .
  from assms(2) False g obtain room where
      svc': "svc' = svc\<lparr> rooms := (rooms svc)(rc \<mapsto> room),
                       playerToRoom := (playerToRoom svc)(sid \<mapsto> rc) \<rparr>"
      and pl: "map player_id (players room) = [playerId]"
          "map player_color (players room) = [c]" "map sessionId (players room) = [sid]"
    by (auto simp: createRoom_def Let_def)
  show ?thesis
    unfolding directoryInv_def
  proof (intro allI impI)
    fix rc' room'
    assume r: "rooms svc' rc' = Some room'"
    show "distinct (map player_id (players room'))
        \<and> distinct (map player_color (players room'))
        \<and> distinct (map sessionId (players room'))
        \<and> (\<forall>s \<in> set (map sessionId (players room')). playerToRoom svc' s = Some rc')"
    proof (cases "rc' = rc")
      case True
      with r svc' have "room' = room" by simp
      with pl True svc' show ?thesis by simp
    next
      case ne: False
      with r svc' have old: "rooms svc rc' = Some room'" by simp
      with assms(1) have i: "distinct (map player_id (players room'))"
          "distinct (map player_color (players room'))"
          "distinct (map sessionId (players room'))"
          "\<forall>s \<in> set (map sessionId (players room')). playerToRoom svc s = Some rc'"
        unfolding directoryInv_def by blast+
      from i(4) False have "\<forall>s \<in> set (map sessionId (players room')). s \<noteq> sid" by auto
      with i svc' show ?thesis by simp
    qed
  qed
qed


lemma hd_filter: "filter P xs \<noteq> [] \<Longrightarrow> P (hd (filter P xs))"
  by (induction xs) auto

lemma joinRoom_shape:
  "snd (joinRoom svc rc playerName sid playerId now) = svc
   \<or> (\<exists>room np. rooms svc rc = Some room \<and> playerToRoom svc sid = None
         \<and> player_color np \<notin> set (map player_color (players room))
         \<and> player_id np = playerId \<and> sessionId np = sid
         \<and> snd (joinRoom svc rc playerName sid playerId now)
             = svc\<lparr> rooms := (rooms svc)(rc \<mapsto> room\<lparr> players := players room @ [np],
                                                        lastActivity := now \<rparr>),
                    playerToRoom := (playerToRoom svc)(sid \<mapsto> rc) \<rparr>)"
proof (cases "rooms svc rc")
  case None
  then show ?thesis by (simp add: joinRoom_def)
next
  case (Some room)
  let ?av = "filter (\<lambda>c. c \<notin> set (map player_color (players room))) PlayerColor_values"
  show ?thesis
  proof (cases "playerToRoom svc sid = None \<and> status room = WAITING
                  \<and> \<not> int (length (players room)) \<ge> maxPlayers room \<and> ?av \<noteq> []")
    case False
    with Some show ?thesis by (auto simp: joinRoom_def Let_def)
  next
    case True
    then have "?av \<noteq> []" by blast
    then have "hd ?av \<notin> set (map player_color (players room))" by (rule hd_filter)
    let ?np = "\<lparr> player_id = playerId, player_name = playerName, player_color = hd ?av,
                  isReady = False, isAdmin = False, joinedAt = now, sessionId = sid \<rparr>"
    have c: "player_color ?np \<notin> set (map player_color (players room))"
      using \<open>hd ?av \<notin> set (map player_color (players room))\<close> by simp
    have "snd (joinRoom svc rc playerName sid playerId now)
             = svc\<lparr> rooms := (rooms svc)(rc \<mapsto> room\<lparr> players := players room @ [?np],
                                                        lastActivity := now \<rparr>),
                    playerToRoom := (playerToRoom svc)(sid \<mapsto> rc) \<rparr>"
      using True Some by (simp add: joinRoom_def Let_def)
    with True Some c show ?thesis
      by (intro disjI2 exI[of _ room] exI[of _ ?np]) simp
  qed
qed

lemma joinRoom_inv:
  assumes inv: "directoryInv svc"
      and fresh: "uuidFresh svc (JoinRoom rc playerName sid playerId now)"
  shows "directoryInv (snd (joinRoom svc rc playerName sid playerId now))"
  using joinRoom_shape[of svc rc playerName sid playerId now]
proof (elim disjE exE conjE)
  assume "snd (joinRoom svc rc playerName sid playerId now) = svc"
  with inv show ?thesis by simp
next
  fix room np
  assume room: "rooms svc rc = Some room" and unbound: "playerToRoom svc sid = None"
    and np: "player_color np \<notin> set (map player_color (players room))"
        "player_id np = playerId" "sessionId np = sid"
    and svc': "snd (joinRoom svc rc playerName sid playerId now)
             = svc\<lparr> rooms := (rooms svc)(rc \<mapsto> room\<lparr> players := players room @ [np],
                                                        lastActivity := now \<rparr>),
                    playerToRoom := (playerToRoom svc)(sid \<mapsto> rc) \<rparr>"
  from fresh room have fr: "playerId \<notin> set (map player_id (players room))" by simp
  have other: "s \<noteq> sid" if "rooms svc rc' = Some room'" "s \<in> set (map sessionId (players room'))"
    for rc' room' s
  proof -
    from inv that have "playerToRoom svc s = Some rc'" unfolding directoryInv_def by blast
    with unbound show ?thesis by auto
  qed
  show ?thesis
    unfolding directoryInv_def svc'
  proof (intro allI impI)
    fix rc' room'
    assume r: "rooms (svc\<lparr> rooms := (rooms svc)(rc \<mapsto> room\<lparr> players := players room @ [np],
                                                        lastActivity := now \<rparr>),
                    playerToRoom := (playerToRoom svc)(sid \<mapsto> rc) \<rparr>) rc' = Some room'"
    let ?p2r = "playerToRoom (svc\<lparr> rooms := (rooms svc)(rc \<mapsto> room\<lparr> players := players room @ [np],
                                                        lastActivity := now \<rparr>),
                    playerToRoom := (playerToRoom svc)(sid \<mapsto> rc) \<rparr>)"
    show "distinct (map player_id (players room'))
        \<and> distinct (map player_color (players room'))
        \<and> distinct (map sessionId (players room'))
        \<and> (\<forall>s \<in> set (map sessionId (players room')). ?p2r s = Some rc')"
    proof (cases "rc' = rc")
      case True
      with r have r': "players room' = players room @ [np]" by auto
      from inv room have i: "distinct (map player_id (players room))"
          "distinct (map player_color (players room))"
          "distinct (map sessionId (players room))"
          "\<forall>s \<in> set (map sessionId (players room)). playerToRoom svc s = Some rc"
        unfolding directoryInv_def by blast+
      from other[OF room] have "sid \<notin> set (map sessionId (players room))" by blast
      with i np fr r' True show ?thesis by auto
    next
      case False
      with r have old: "rooms svc rc' = Some room'" by simp
      with inv have i: "distinct (map player_id (players room'))"
          "distinct (map player_color (players room'))"
          "distinct (map sessionId (players room'))"
          "\<forall>s \<in> set (map sessionId (players room')). playerToRoom svc s = Some rc'"
        unfolding directoryInv_def by blast+
      from other[OF old] i show ?thesis by auto
    qed
  qed
qed


lemma distinct_list_update_fresh:
  assumes "distinct ys" "i < length ys" "\<forall>j<length ys. j \<noteq> i \<longrightarrow> ys ! j \<noteq> v"
  shows "distinct (ys[i := v])"
  using assms unfolding distinct_conv_nth
  by (auto simp: nth_list_update)

lemma updatePlayerColor_inv:
  assumes inv: "directoryInv svc"
  shows "directoryInv (snd (updatePlayerColor svc sid newColor now))"
proof (cases "playerToRoom svc sid")
  case None
  with inv show ?thesis by (simp add: updatePlayerColor_def)
next
  case rc: (Some rc)
  show ?thesis
  proof (cases "rooms svc rc")
    case None
    with rc inv show ?thesis by (simp add: updatePlayerColor_def)
  next
    case room: (Some room)
    show ?thesis
    proof (cases "findIndex (\<lambda>p. sessionId p = sid) (players room)")
      case None
      with rc room inv show ?thesis by (simp add: updatePlayerColor_def)
    next
      case (Some i)
      let ?xs = "players room"
      let ?taken = "map player_color (filter (\<lambda>p. player_id p \<noteq> player_id (?xs ! i)) ?xs)"
      show ?thesis
      proof (cases "newColor \<in> set ?taken")
        case True
        with rc room Some inv show ?thesis by (simp add: updatePlayerColor_def Let_def)
      next
        case free: False
        let ?xs' = "?xs[i := (?xs ! i)\<lparr> player_color := newColor \<rparr>]"
        have svc': "snd (updatePlayerColor svc sid newColor now)
            = svc\<lparr> rooms := (rooms svc)(rc \<mapsto> room\<lparr> players := ?xs', lastActivity := now \<rparr>) \<rparr>"
          using rc room Some free by (simp add: updatePlayerColor_def Let_def)
        from findIndex_Some[OF Some] have i: "i < length ?xs" by simp
        from inv room have old: "distinct (map player_id ?xs)"
            "distinct (map player_color ?xs)" "distinct (map sessionId ?xs)"
            "\<forall>s \<in> set (map sessionId ?xs). playerToRoom svc s = Some rc"
          unfolding directoryInv_def by blast+
        have ids: "map player_id ?xs' = map player_id ?xs"
          and ses: "map sessionId ?xs' = map sessionId ?xs"
          using i by (simp_all add: map_update list_update_same_conv)
        have col: "map player_color ?xs' = (map player_color ?xs)[i := newColor]"
          by (simp add: map_update)
        have "distinct ((map player_color ?xs)[i := newColor])"
        proof (rule distinct_list_update_fresh)
          show "distinct (map player_color ?xs)" by (rule old(2))
          show "i < length (map player_color ?xs)" using i by simp
          show "\<forall>j<length (map player_color ?xs). j \<noteq> i \<longrightarrow> map player_color ?xs ! j \<noteq> newColor"
          proof (intro allI impI)
            fix j assume j: "j < length (map player_color ?xs)" "j \<noteq> i"
            then have "player_id (?xs ! j) \<noteq> player_id (?xs ! i)"
              using old(1) i distinct_map_nth_eq[of player_id ?xs j i] by auto
            with j(1) have "player_color (?xs ! j) \<in> set ?taken" by auto
            with free j(1) show "map player_color ?xs ! j \<noteq> newColor" by auto
          qed
        qed
        with col have dcol: "distinct (map player_color ?xs')" by simp
        show ?thesis
          unfolding directoryInv_def svc'
        proof (intro allI impI)
          fix rc' room'
          assume r: "rooms (svc\<lparr> rooms := (rooms svc)(rc \<mapsto> room\<lparr> players := ?xs',
                               lastActivity := now \<rparr>) \<rparr>) rc' = Some room'"
          show "distinct (map player_id (players room'))
            \<and> distinct (map player_color (players room'))
            \<and> distinct (map sessionId (players room'))
            \<and> (\<forall>s \<in> set (map sessionId (players room')).
                  playerToRoom (svc\<lparr> rooms := (rooms svc)(rc \<mapsto> room\<lparr> players := ?xs',
                               lastActivity := now \<rparr>) \<rparr>) s = Some rc')"
          proof (cases "rc' = rc")
            case True
            with r have "players room' = ?xs'" by auto
            with old ids ses dcol True show ?thesis by simp
          next
            case False
            with r have "rooms svc rc' = Some room'" by simp
            with inv show ?thesis unfolding directoryInv_def by simp
          qed
        qed
      qed
    qed
  qed
qed


lemma map_remove_nth:
  "map f (take i xs @ drop (Suc i) xs) = take i (map f xs) @ drop (Suc i) (map f xs)"
  by (simp add: take_map drop_map)

lemma distinct_remove_nth:
  assumes "distinct ys"
  shows "distinct (take i ys @ drop (Suc i) ys)"
  using assms by (simp add: set_take_disj_set_drop_if_distinct)

lemma set_remove_nth: "set (take i ys @ drop (Suc i) ys) \<subseteq> set ys"
  by (auto dest: in_set_takeD in_set_dropD)

lemma nth_not_in_remove_nth:
  assumes "distinct ys" "i < length ys"
  shows "ys ! i \<notin> set (take i ys @ drop (Suc i) ys)"
proof -
  have "ys = take i ys @ ys ! i # drop (Suc i) ys"
    using assms(2) by (rule id_take_nth_drop)
  then have "distinct (take i ys @ ys ! i # drop (Suc i) ys)" using assms(1) by simp
  then show ?thesis by auto
qed

lemma leaveRoom_found:
  assumes "playerToRoom svc sid = Some rc" "rooms svc rc = Some room"
      and "findIndex (\<lambda>p. sessionId p = sid) (players room) = Some i"
      and "rem = take i (players room) @ drop (Suc i) (players room)"
  shows "leaveRoom svc sid now =
     (if length rem = 0
      then (Inr (None, isAdmin (players room ! i)),
            svc\<lparr> rooms := (rooms svc)(rc := None),
                 playerToRoom := (playerToRoom svc)(sid := None) \<rparr>)
      else (Inr (Some (if isAdmin (players room ! i) \<and> length rem > 0
                       then room\<lparr> players := rem[0 := (rem ! 0)\<lparr> isAdmin := True \<rparr>],
                                  adminId := player_id (rem ! 0), lastActivity := now \<rparr>
                       else room\<lparr> players := rem, lastActivity := now \<rparr>),
                 isAdmin (players room ! i)),
            svc\<lparr> rooms := (rooms svc)(rc \<mapsto>
                      (if isAdmin (players room ! i) \<and> length rem > 0
                       then room\<lparr> players := rem[0 := (rem ! 0)\<lparr> isAdmin := True \<rparr>],
                                  adminId := player_id (rem ! 0), lastActivity := now \<rparr>
                       else room\<lparr> players := rem, lastActivity := now \<rparr>)),
                 playerToRoom := (playerToRoom svc)(sid := None) \<rparr>))"
  using assms by (simp add: leaveRoom_def Let_def)

lemma promoted_maps:
  "map player_id (rem[0 := (rem ! 0)\<lparr> isAdmin := True \<rparr>]) = map player_id rem"
  "map player_color (rem[0 := (rem ! 0)\<lparr> isAdmin := True \<rparr>]) = map player_color rem"
  "map sessionId (rem[0 := (rem ! 0)\<lparr> isAdmin := True \<rparr>]) = map sessionId rem"
  by (cases rem; simp)+

lemma leaveRoom_inv:
  assumes inv: "directoryInv svc"
  shows "directoryInv (snd (leaveRoom svc sid now))"
proof (cases "playerToRoom svc sid")
  case None
  with inv show ?thesis by (simp add: leaveRoom_def)
next
  case rc: (Some rc)
  show ?thesis
  proof (cases "rooms svc rc")
    case None
    with rc inv show ?thesis by (simp add: leaveRoom_def)
  next
    case room: (Some room)
    show ?thesis
    proof (cases "findIndex (\<lambda>p. sessionId p = sid) (players room)")
      case None
      with rc room inv show ?thesis by (simp add: leaveRoom_def)
    next
      case (Some i)
      let ?xs = "players room"
      let ?p2r = "(playerToRoom svc)(sid := None)"
      define rem where "rem = take i ?xs @ drop (Suc i) ?xs"
      note lr = leaveRoom_found[OF rc room Some rem_def, of now]
      from findIndex_Some[OF Some] have i: "i < length ?xs" "sessionId (?xs ! i) = sid" by auto
      from inv room have old: "distinct (map player_id ?xs)"
          "distinct (map player_color ?xs)" "distinct (map sessionId ?xs)"
          "\<forall>s \<in> set (map sessionId ?xs). playerToRoom svc s = Some rc"
        unfolding directoryInv_def by blast+
      have rem: "distinct (map player_id rem)" "distinct (map player_color rem)"
          "distinct (map sessionId rem)"
        unfolding rem_def using old(1-3) by (simp_all only: map_remove_nth distinct_remove_nth)
      have "map sessionId ?xs ! i \<notin> set (take i (map sessionId ?xs) @ drop (Suc i) (map sessionId ?xs))"
        using old(3) i(1) by (intro nth_not_in_remove_nth) simp_all
      then have gone: "sid \<notin> set (map sessionId rem)"
        unfolding rem_def using i by (simp add: take_map drop_map)
      have sub: "set (map sessionId rem) \<subseteq> set (map sessionId ?xs)"
        unfolding rem_def using set_remove_nth[of i "map sessionId ?xs"]
        by (simp only: map_remove_nth)
      have bound: "\<forall>s \<in> set (map sessionId rem). ?p2r s = Some rc"
        using gone sub old(4) by auto
      have others: "distinct (map player_id (players room'))
              \<and> distinct (map player_color (players room'))
              \<and> distinct (map sessionId (players room'))
              \<and> (\<forall>s \<in> set (map sessionId (players room')). ?p2r s = Some rc')"
        if "rooms svc rc' = Some room'" "rc' \<noteq> rc" for rc' room'
      proof -
        have "?p2r s = Some rc'" if "s \<in> set (map sessionId (players room'))" for s
        proof -
          from inv \<open>rooms svc rc' = Some room'\<close> that
          have "playerToRoom svc s = Some rc'" unfolding directoryInv_def by blast
          moreover from this rc \<open>rc' \<noteq> rc\<close> have "s \<noteq> sid" by auto
          ultimately show ?thesis by simp
        qed
        moreover from inv that(1) have "distinct (map player_id (players room'))
              \<and> distinct (map player_color (players room'))
              \<and> distinct (map sessionId (players room'))"
          unfolding directoryInv_def by blast
        ultimately show ?thesis by blast
      qed
      show ?thesis
      proof (cases "length rem = 0")
        case True
        have svc': "snd (leaveRoom svc sid now)
            = svc\<lparr> rooms := (rooms svc)(rc := None), playerToRoom := ?p2r \<rparr>"
          by (simp only: lr True if_True snd_conv simp_thms)
        show ?thesis
          unfolding directoryInv_def svc'
        proof (intro allI impI)
          fix rc' room'
          assume r: "rooms (svc\<lparr> rooms := (rooms svc)(rc := None), playerToRoom := ?p2r \<rparr>) rc'
                       = Some room'"
          then have ne: "rc' \<noteq> rc" and o: "rooms svc rc' = Some room'"
            by (auto split: if_splits)
          from others[OF o ne]
          show "distinct (map player_id (players room'))
            \<and> distinct (map player_color (players room'))
            \<and> distinct (map sessionId (players room'))
            \<and> (\<forall>s \<in> set (map sessionId (players room')).
                  playerToRoom (svc\<lparr> rooms := (rooms svc)(rc := None), playerToRoom := ?p2r \<rparr>) s
                    = Some rc')"
            by simp
        qed
      next
        case False
        define room2 where "room2 =
             (if isAdmin (?xs ! i) \<and> length rem > 0
              then room\<lparr> players := rem[0 := (rem ! 0)\<lparr> isAdmin := True \<rparr>],
                         adminId := player_id (rem ! 0), lastActivity := now \<rparr>
              else room\<lparr> players := rem, lastActivity := now \<rparr>)"
        have svc': "snd (leaveRoom svc sid now)
            = svc\<lparr> rooms := (rooms svc)(rc \<mapsto> room2), playerToRoom := ?p2r \<rparr>"
          unfolding room2_def by (simp only: lr False if_False snd_conv simp_thms)
        have same: "map player_id (players room2) = map player_id rem"
            "map player_color (players room2) = map player_color rem"
            "map sessionId (players room2) = map sessionId rem"
          unfolding room2_def by (simp_all add: promoted_maps)
        show ?thesis
          unfolding directoryInv_def svc'
        proof (intro allI impI)
          fix rc' room'
          assume r: "rooms (svc\<lparr> rooms := (rooms svc)(rc \<mapsto> room2), playerToRoom := ?p2r \<rparr>) rc'
                       = Some room'"
          show "distinct (map player_id (players room'))
            \<and> distinct (map player_color (players room'))
            \<and> distinct (map sessionId (players room'))
            \<and> (\<forall>s \<in> set (map sessionId (players room')).
                  playerToRoom (svc\<lparr> rooms := (rooms svc)(rc \<mapsto> room2), playerToRoom := ?p2r \<rparr>) s
                    = Some rc')"
          proof (cases "rc' = rc")
            case True
            with r have "room' = room2" by simp
            with same rem bound True show ?thesis by simp
          next
            case ne: False
            with r have o: "rooms svc rc' = Some room'" by simp
            from others[OF o ne] show ?thesis by simp
          qed
        qed
      qed
    qed
  qed
qed

lemma perform_inv:
  assumes "directoryInv svc" "uuidFresh svc c" "perform svc c = Some svc'"
  shows "directoryInv svc'"
proof (cases c)
  case (CreateRoom playerName col maxP sid draws playerId roomId now)
  with assms(3) obtain res
    where "createRoom svc playerName col maxP sid draws playerId roomId now = Some (res, svc')"
    by auto
  with assms(1) show ?thesis by (rule createRoom_inv)
next
  case (JoinRoom rc playerName sid playerId now)
  with assms show ?thesis using joinRoom_inv[of svc rc playerName sid playerId now] by auto
next
  case (UpdateColor sid newColor now)
  with assms show ?thesis using updatePlayerColor_inv[of svc sid newColor now] by auto
next
  case (LeaveRoom sid now)
  with assms show ?thesis using leaveRoom_inv[of svc sid now] by auto
qed

lemma run_inv:
  "directoryInv svc \<Longrightarrow> run svc cmds = Some svc' \<Longrightarrow> directoryInv svc'"
proof (induction cmds arbitrary: svc)
  case Nil
  then show ?case by simp
next
  case (Cons c cmds)
  from Cons.prems(2) obtain mid where f: "uuidFresh svc c" and p: "perform svc c = Some mid"
    and r: "run mid cmds = Some svc'"
    by (auto split: if_splits option.splits)
  from Cons.prems(1) f p have "directoryInv mid" by (rule perform_inv)
  then show ?case using r by (rule Cons.IH)
qed

text \<open>
  C10. After every sequence of \<open>createRoom\<close>, \<open>joinRoom\<close>, \<open>updatePlayerColor\<close>
  and \<open>leaveRoom\<close> calls from the empty directory (every \<open>createRoom\<close> returning,
  every uuid drawn by \<open>joinRoom\<close> new in the room joined): the players of every room
  have pairwise distinct colours; the session of every player of a room is bound to that
  room; and for a session identifier that is bound to a room, \<open>createRoom\<close> and
  \<open>joinRoom\<close> fail with the ConflictException and return the service state unchanged,
  whatever their other arguments.
\<close>

theorem C10_distinct_colors_single_session:
  assumes "run emptyService cmds = Some svc"
  shows "(\<forall>rc room. rooms svc rc = Some room \<longrightarrow> distinct (map player_color (players room)))
     \<and> (\<forall>rc room p. rooms svc rc = Some room \<and> p \<in> set (players room)
           \<longrightarrow> playerToRoom svc (sessionId p) = Some rc)
     \<and> (\<forall>sid. playerToRoom svc sid \<noteq> None \<longrightarrow>
           (\<forall>playerName c maxP draws playerId roomId now.
               createRoom svc playerName c maxP sid draws playerId roomId now
                 = Some (Inl (ConflictException ''You are already in a room''), svc))
         \<and> (\<forall>rc playerName playerId now.
               joinRoom svc rc playerName sid playerId now
                 = (Inl (ConflictException ''You are already in a room''), svc)))"
proof -
  from directoryInv_empty assms have inv: "directoryInv svc" by (rule run_inv)
  have 1: "\<forall>rc room. rooms svc rc = Some room \<longrightarrow> distinct (map player_color (players room))"
    using inv unfolding directoryInv_def by blast
  have 2: "\<forall>rc room p. rooms svc rc = Some room \<and> p \<in> set (players room)
           \<longrightarrow> playerToRoom svc (sessionId p) = Some rc"
    using inv unfolding directoryInv_def by auto
  have 3: "\<forall>sid. playerToRoom svc sid \<noteq> None \<longrightarrow>
           (\<forall>playerName c maxP draws playerId roomId now.
               createRoom svc playerName c maxP sid draws playerId roomId now
                 = Some (Inl (ConflictException ''You are already in a room''), svc))
         \<and> (\<forall>rc playerName playerId now.
               joinRoom svc rc playerName sid playerId now
                 = (Inl (ConflictException ''You are already in a room''), svc))"
    by (simp add: createRoom_def joinRoom_def)
  from 1 2 3 show ?thesis by blast
qed

text \<open>
  Ann creates a room as red, Bob joins it and is given blue, the first colour not taken,
  and changes to green. The colours in the room are distinct, and Bob's session can
  neither join the room again nor create another room.
\<close>

text \<open>
  Ann creates a room as red, Bob joins it and is given blue, the first colour not taken,
  and changes to green. The colours in the room are distinct, and Bob's session can
  neither join the room again nor create another room.
\<close>

theorem C10_distinct_colors_single_session_witness:
  "\<exists>svc room. run emptyService lobbyCommands = Some svc
      \<and> rooms svc ''ABCD-1234'' = Some room
      \<and> map player_color (players room) = [RED, GREEN]
      \<and> distinct (map player_color (players room))
      \<and> playerToRoom svc ''s2'' = Some ''ABCD-1234''
      \<and> joinRoom svc ''ABCD-1234'' ''Eve'' ''s2'' ''p9'' 5
           = (Inl (ConflictException ''You are already in a room''), svc)
      \<and> createRoom svc ''Eve'' YELLOW 4 ''s2'' [''WXYZ-0000''] ''p9'' ''r9'' 5
           = Some (Inl (ConflictException ''You are already in a room''), svc)"
proof -
  have e: "map_option (\<lambda>s. map_option (map player_color \<circ> players) (rooms s ''ABCD-1234''))
             (run emptyService lobbyCommands) = Some (Some [RED, GREEN])"
    and b: "map_option (\<lambda>s. playerToRoom s ''s2'') (run emptyService lobbyCommands)
             = Some (Some ''ABCD-1234'')"
    by (simp_all add: lobbyCommands_def emptyService_def createRoom_def joinRoom_def
          updatePlayerColor_def PlayerColor_values_def Let_def)
  from e obtain svc where r: "run emptyService lobbyCommands = Some svc" by auto
  with e obtain room where room: "rooms svc ''ABCD-1234'' = Some room"
      and cols: "map player_color (players room) = [RED, GREEN]"
    by auto
  from b r have bound: "playerToRoom svc ''s2'' = Some ''ABCD-1234''" by simp
  then have nn: "playerToRoom svc ''s2'' \<noteq> None" by simp
  note c10 = C10_distinct_colors_single_session[OF r]
  have d: "distinct (map player_color (players room))"
    by (rule c10[THEN conjunct1, rule_format, OF room])
  note refused = c10[THEN conjunct2, THEN conjunct2, rule_format, OF nn]
  have c: "createRoom svc ''Eve'' YELLOW 4 ''s2'' [''WXYZ-0000''] ''p9'' ''r9'' 5
           = Some (Inl (ConflictException ''You are already in a room''), svc)"
    by (rule refused[THEN conjunct1, rule_format])
  have j: "joinRoom svc ''ABCD-1234'' ''Eve'' ''s2'' ''p9'' 5
           = (Inl (ConflictException ''You are already in a room''), svc)"
    by (rule refused[THEN conjunct2, rule_format])
  show ?thesis
    by (intro exI conjI) (rule r room cols d bound j c)+
qed


end
